theory Spec2Isabelle
  imports Complex_Main "HOL-Library.Word"
begin

section \<open>Resilient call wrapper: \<open>retryTask\<close>\<close>

text \<open>
  Source (components/VisualAssistant.tsx, lines 30-42):
  \<^verbatim>\<open>
  const retryTask = async <T,>(task: () => Promise<T>, maxRetries = 2, delay = 1000) => {
    let attempt = 0;
    while (attempt <= maxRetries) {
      try { return await task(); }
      catch (err) {
        if (attempt === maxRetries) throw err;
        attempt++;
        await new Promise(resolve => setTimeout(resolve, delay));
      }
    }
    throw new Error("Unexpected retry failure");
  };
  \<close>

  The task is an effectful thunk: its \<open>k\<close>-th invocation (counted from 0 within one call
  of \<open>retryTask\<close>) either rejects with an error or fulfils with a value. It is modelled as
  the function \<open>task :: nat \<Rightarrow> 'e + 'a\<close> from the invocation index to that outcome
  (\<open>Inl\<close> the rejection). The retry budget is a whole number of retries (\<open>int\<close>, so that
  a negative budget can be written down); the counter \<open>attempt\<close> is the source's, and
  \<open>calls\<close> counts the invocations of the task made so far. \<open>waited\<close> sums the
  delays requested of \<open>setTimeout\<close>.
\<close>

datatype 'e thrown = TaskError 'e | UnexpectedRetryFailure

record ('e, 'a) retry_result =
  outcome :: "'e thrown + 'a"
  invocations :: nat
  waited :: int

function retry_loop ::
  "(nat \<Rightarrow> 'e + 'a) \<Rightarrow> int \<Rightarrow> int \<Rightarrow> int \<Rightarrow> nat \<Rightarrow> int \<Rightarrow> ('e, 'a) retry_result" where
  "retry_loop task maxRetries delay attempt calls w =
     (if attempt \<le> maxRetries then
        (case task calls of
           Inr v \<Rightarrow> \<lparr>outcome = Inr v, invocations = Suc calls, waited = w\<rparr>
         | Inl err \<Rightarrow>
             if attempt = maxRetries
             then \<lparr>outcome = Inl (TaskError err), invocations = Suc calls, waited = w\<rparr>
             else retry_loop task maxRetries delay (attempt + 1) (Suc calls) (w + delay))
      else \<lparr>outcome = Inl UnexpectedRetryFailure, invocations = calls, waited = w\<rparr>)"
  by pat_completeness auto
termination
  by (relation "measure (\<lambda>(task, maxRetries, delay, attempt, calls, w). nat (maxRetries + 1 - attempt))")
     auto

declare retry_loop.simps [simp del]

text \<open>
  The two defaulted parameters: an omitted argument is \<open>None\<close> and takes the default of
  the signature, \<open>maxRetries = 2\<close> and \<open>delay = 1000\<close>.
\<close>

definition retryTask ::
  "(nat \<Rightarrow> 'e + 'a) \<Rightarrow> int option \<Rightarrow> int option \<Rightarrow> ('e, 'a) retry_result" where
  "retryTask task maxRetries_arg delay_arg =
     (let maxRetries = (case maxRetries_arg of None \<Rightarrow> 2 | Some m \<Rightarrow> m);
          delay = (case delay_arg of None \<Rightarrow> 1000 | Some d \<Rightarrow> d)
      in retry_loop task maxRetries delay 0 0 0)"

section \<open>Scalar smoothing filter: \<open>KalmanFilter\<close>\<close>

text \<open>
  Source (components/VisualAssistant.tsx, lines 12-25):
  \<^verbatim>\<open>
  class KalmanFilter {
    private x: number = 0; // State
    private p: number = 1; // Covariance
    private q: number = 0.1; // Process noise
    private r: number = 0.5; // Measurement noise
    filter(measurement: number): number {
      this.p = this.p + this.q;
      const k = this.p / (this.p + this.r);
      this.x = this.x + k * (measurement - this.x);
      this.p = (1 - k) * this.p;
      return this.x;
    }
  }
  \<close>
  The four fields are the record \<open>KalmanFilter\<close> (field names prefixed with \<open>kf_\<close>, to
  keep \<open>x\<close>, \<open>p\<close>, \<open>q\<close> and \<open>r\<close> free as variable names). The method \<open>filter\<close>
  (renamed \<open>kf_filter\<close>, \<open>filter\<close> being the list function of HOL) takes the object and
  returns the returned number together with the mutated object; its four statements are
  the four bindings of the \<open>let\<close>. Numbers are the reals: the rounding of IEEE doubles is
  not modelled.
\<close>

record KalmanFilter =
  kf_x :: real
  kf_p :: real
  kf_q :: real
  kf_r :: real

definition KalmanFilter_new :: KalmanFilter where
  "KalmanFilter_new = \<lparr>kf_x = 0, kf_p = 1, kf_q = 1 / 10, kf_r = 1 / 2\<rparr>"

definition kf_filter :: "KalmanFilter \<Rightarrow> real \<Rightarrow> real \<times> KalmanFilter" where
  "kf_filter this measurement =
     (let this1 = this\<lparr>kf_p := kf_p this + kf_q this\<rparr>;
          k = kf_p this1 / (kf_p this1 + kf_r this1);
          this2 = this1\<lparr>kf_x := kf_x this1 + k * (measurement - kf_x this1)\<rparr>;
          this3 = this2\<lparr>kf_p := (1 - k) * kf_p this2\<rparr>
      in (kf_x this3, this3))"

text \<open>
  The fields are private, so the only filter objects that exist are those obtained from a
  new one by calls of \<open>filter\<close>: \<open>kf_run ms\<close> is the object after the measurements
  \<open>ms\<close>, in order.
\<close>

definition kf_run :: "real list \<Rightarrow> KalmanFilter" where
  "kf_run ms = foldl (\<lambda>this m. snd (kf_filter this m)) KalmanFilter_new ms"

text \<open>The gain \<open>k\<close> that a call of \<open>filter\<close> computes from the object it is called on.\<close>

definition kf_gain :: "KalmanFilter \<Rightarrow> real" where
  "kf_gain this = (kf_p this + kf_q this) / (kf_p this + kf_q this + kf_r this)"

section \<open>Motion scorer\<close>

text \<open>
  Source (\<open>checkMotion\<close>, lines 197-216). \<open>currData\<close> and \<open>prevData\<close> are the
  \<open>Uint8ClampedArray\<close>s that \<open>getImageData(0, 0, 64, 64)\<close> returns: \<open>64 * 64 * 4\<close>
  bytes each. A frame is a list of bytes; the theorems about scores assume the length
  that \<open>getImageData\<close> guarantees (\<open>wf_frame\<close>), which puts every index read in range.
  \<^verbatim>\<open>
  let rawMotionScore = 0;
  if (prevData) {
    const gridSize = 4;
    const blockSize = mSize / gridSize;
    for (let gy = 0; gy < gridSize; gy++) {
      for (let gx = 0; gx < gridSize; gx++) {
        let blockDiff = 0;
        for (let y = 0; y < blockSize; y += 2) {
          for (let x = 0; x < blockSize; x += 2) {
            const idx = ((gy * blockSize + y) * mSize + (gx * blockSize + x)) * 4;
            blockDiff += Math.abs(currData[idx] - prevData[idx]);
          }
        }
        rawMotionScore += blockDiff;
      }
    }
  }
  \<close>
  Each \<open>for\<close> loop is one recursive function on its loop variable, carrying the
  accumulator the loop updates.
\<close>

type_synonym frame = "8 word list"

abbreviation mSize :: nat where "mSize \<equiv> 64"
abbreviation gridSize :: nat where "gridSize \<equiv> 4"
abbreviation blockSize :: nat where "blockSize \<equiv> mSize div gridSize"

definition wf_frame :: "frame \<Rightarrow> bool" where
  "wf_frame d = (length d = mSize * mSize * 4)"

definition pixel_idx :: "nat \<Rightarrow> nat \<Rightarrow> nat \<Rightarrow> nat \<Rightarrow> nat" where
  "pixel_idx gy gx y x = ((gy * blockSize + y) * mSize + (gx * blockSize + x)) * 4"

definition pixel_diff :: "frame \<Rightarrow> frame \<Rightarrow> nat \<Rightarrow> int" where
  "pixel_diff currData prevData idx = \<bar>uint (currData ! idx) - uint (prevData ! idx)\<bar>"

function loop_x :: "frame \<Rightarrow> frame \<Rightarrow> nat \<Rightarrow> nat \<Rightarrow> nat \<Rightarrow> nat \<Rightarrow> int \<Rightarrow> int" where
  "loop_x currData prevData gy gx y x blockDiff =
     (if x < blockSize
      then loop_x currData prevData gy gx y (x + 2)
             (blockDiff + pixel_diff currData prevData (pixel_idx gy gx y x))
      else blockDiff)"
  by pat_completeness auto
termination
  by (relation "measure (\<lambda>(currData, prevData, gy, gx, y, x, blockDiff). blockSize - x)") auto

function loop_y :: "frame \<Rightarrow> frame \<Rightarrow> nat \<Rightarrow> nat \<Rightarrow> nat \<Rightarrow> int \<Rightarrow> int" where
  "loop_y currData prevData gy gx y blockDiff =
     (if y < blockSize
      then loop_y currData prevData gy gx (y + 2) (loop_x currData prevData gy gx y 0 blockDiff)
      else blockDiff)"
  by pat_completeness auto
termination
  by (relation "measure (\<lambda>(currData, prevData, gy, gx, y, blockDiff). blockSize - y)") auto

function loop_gx :: "frame \<Rightarrow> frame \<Rightarrow> nat \<Rightarrow> nat \<Rightarrow> int \<Rightarrow> int" where
  "loop_gx currData prevData gy gx rawMotionScore =
     (if gx < gridSize
      then loop_gx currData prevData gy (gx + 1)
             (rawMotionScore + loop_y currData prevData gy gx 0 0)
      else rawMotionScore)"
  by pat_completeness auto
termination
  by (relation "measure (\<lambda>(currData, prevData, gy, gx, rawMotionScore). gridSize - gx)") auto

function loop_gy :: "frame \<Rightarrow> frame \<Rightarrow> nat \<Rightarrow> int \<Rightarrow> int" where
  "loop_gy currData prevData gy rawMotionScore =
     (if gy < gridSize
      then loop_gy currData prevData (gy + 1) (loop_gx currData prevData gy 0 rawMotionScore)
      else rawMotionScore)"
  by pat_completeness auto
termination
  by (relation "measure (\<lambda>(currData, prevData, gy, rawMotionScore). gridSize - gy)") auto

declare loop_x.simps [simp del] loop_y.simps [simp del]
  loop_gx.simps [simp del] loop_gy.simps [simp del]

definition rawMotionScore :: "frame option \<Rightarrow> frame \<Rightarrow> int" where
  "rawMotionScore prevData currData =
     (case prevData of
        None \<Rightarrow> 0
      | Some prev \<Rightarrow> loop_gy currData prev 0 0)"

section \<open>Capture stabilizer: \<open>getStabilizedFrame\<close>\<close>

text \<open>
  Source (components/VisualAssistant.tsx, lines 183-244). The promise executor declares
  the locals \<open>kFilter\<close>, \<open>bestFrame = ''\<close>, \<open>minFilteredMotion = Infinity\<close>,
  \<open>prevData = null\<close> and \<open>startTime = Date.now()\<close>, and calls \<open>checkMotion\<close>, which
  either resolves the promise or schedules itself again after \<open>SAMPLE_RATE\<close> ms:
  \<^verbatim>\<open>
  const checkMotion = async () => {
    if (!videoRef.current || !motionCanvasRef.current || !canvasRef.current
        || !motionCtx || !mainCtx) return;
    ... rawMotionScore ...
    const filteredMotion = kFilter.filter(rawMotionScore);
    const STABILITY_THRESHOLD = 18000;
    const currentStability =
      Math.max(0, Math.min(100, 100 - (filteredMotion / STABILITY_THRESHOLD * 100)));
    setStabilityLevel(currentStability);
    ...
    const currentFrame = canvasRef.current.toDataURL('image/jpeg', 0.9).split(',')[1];
    if (filteredMotion < minFilteredMotion || !bestFrame) {
      minFilteredMotion = filteredMotion;
      bestFrame = currentFrame;
    }
    prevData = currData;
    const timeElapsed = Date.now() - startTime;
    if ((currentStability > 95 && timeElapsed > 400) || timeElapsed >= MAX_DURATION) {
      setStabilityLevel(100);
      await new Promise(r => setTimeout(r, 400));
      resolve(bestFrame);
    } else {
      setTimeout(checkMotion, SAMPLE_RATE);
    }
  };
  \<close>
  What one call of \<open>checkMotion\<close> reads from the world is a \<open>sample\<close>: whether the
  refs and contexts of the guard are all present, the 64x64 image data, the encoded
  full-resolution frame, and the reading of \<open>Date.now()\<close> taken after the frame was
  processed. The state is the locals together with the component's \<open>stabilityLevel\<close>,
  the one piece of React state the function sets. \<open>Infinity\<close> is \<open>None\<close> in
  \<open>minFilteredMotion\<close>.
\<close>

record sample =
  refs_ok :: bool
  currData :: frame
  currentFrame :: string
  now :: int

record stab_state =
  kFilter :: KalmanFilter
  bestFrame :: string
  minFilteredMotion :: "real option"
  prevData :: "frame option"
  stabilityLevel :: real

datatype tick =
    Resolved string stab_state
  | Scheduled stab_state
  | Returned stab_state

abbreviation MAX_DURATION :: int where "MAX_DURATION \<equiv> 3000"
abbreviation SAMPLE_RATE :: int where "SAMPLE_RATE \<equiv> 80"
abbreviation STABILITY_THRESHOLD :: real where "STABILITY_THRESHOLD \<equiv> 18000"

definition currentStability :: "real \<Rightarrow> real" where
  "currentStability filteredMotion =
     max 0 (min 100 (100 - (filteredMotion / STABILITY_THRESHOLD * 100)))"

definition below_min :: "real \<Rightarrow> real option \<Rightarrow> bool" where
  "below_min filteredMotion m = (case m of None \<Rightarrow> True | Some v \<Rightarrow> filteredMotion < v)"

definition checkMotion :: "int \<Rightarrow> stab_state \<Rightarrow> sample \<Rightarrow> tick" where
  "checkMotion startTime st smp =
     (if \<not> refs_ok smp then Returned st
      else
        let (filteredMotion, kf) =
              kf_filter (kFilter st) (real_of_int (rawMotionScore (prevData st) (currData smp)));
            st1 = st\<lparr>kFilter := kf, stabilityLevel := currentStability filteredMotion\<rparr>;
            st2 = (if below_min filteredMotion (minFilteredMotion st1) \<or> bestFrame st1 = []
                   then st1\<lparr>minFilteredMotion := Some filteredMotion,
                            bestFrame := currentFrame smp\<rparr>
                   else st1);
            st3 = st2\<lparr>prevData := Some (currData smp)\<rparr>;
            timeElapsed = now smp - startTime
        in if (currentStability filteredMotion > 95 \<and> timeElapsed > 400)
              \<or> timeElapsed \<ge> MAX_DURATION
           then Resolved (bestFrame st3) (st3\<lparr>stabilityLevel := 100\<rparr>)
           else Scheduled st3)"

text \<open>
  The chain of calls of \<open>checkMotion\<close> over the samples the world provides, in order. It
  ends with \<open>Resolved\<close> when a call resolves the promise and with \<open>Returned\<close> when the
  guard returns (then nothing is scheduled and the promise stays pending); \<open>Scheduled\<close> at
  the end of the list means that the attempt is still running after these samples.
\<close>

fun run_checks :: "int \<Rightarrow> stab_state \<Rightarrow> sample list \<Rightarrow> tick" where
  "run_checks startTime st [] = Scheduled st"
| "run_checks startTime st (smp # rest) =
     (case checkMotion startTime st smp of
        Scheduled st' \<Rightarrow> run_checks startTime st' rest
      | Resolved f st' \<Rightarrow> Resolved f st'
      | Returned st' \<Rightarrow> Returned st')"

text \<open>
  The only caller, \<open>captureAndAnalyze\<close>, sets \<open>stabilityLevel\<close> to 0 before the call.
  \<open>getStabilizedFrame\<close> is the value the promise resolves with, \<open>None\<close> while it is
  pending.
\<close>

definition stab_init :: stab_state where
  "stab_init = \<lparr>kFilter = KalmanFilter_new, bestFrame = [], minFilteredMotion = None,
                prevData = None, stabilityLevel = 0\<rparr>"

definition getStabilizedFrame :: "int \<Rightarrow> sample list \<Rightarrow> string option" where
  "getStabilizedFrame startTime samples =
     (case run_checks startTime stab_init samples of
        Resolved f st \<Rightarrow> Some f
      | Scheduled st \<Rightarrow> None
      | Returned st \<Rightarrow> None)"

text \<open>
  What an observer sees of an attempt: for each call of \<open>checkMotion\<close> that got past the
  guard, the pair of \<open>timeElapsed\<close> and \<open>currentStability\<close> of that call, up to and
  including the call that resolves.
\<close>

definition stability_at :: "stab_state \<Rightarrow> sample \<Rightarrow> real" where
  "stability_at st smp =
     currentStability
       (fst (kf_filter (kFilter st) (real_of_int (rawMotionScore (prevData st) (currData smp)))))"

fun attempt_trace :: "int \<Rightarrow> stab_state \<Rightarrow> sample list \<Rightarrow> (int \<times> real) list" where
  "attempt_trace startTime st [] = []"
| "attempt_trace startTime st (smp # rest) =
     (case checkMotion startTime st smp of
        Scheduled st' \<Rightarrow> (now smp - startTime, stability_at st smp) # attempt_trace startTime st' rest
      | Resolved f st' \<Rightarrow> [(now smp - startTime, stability_at st smp)]
      | Returned st' \<Rightarrow> [])"

text \<open>
  The candidates of an attempt: for each call of \<open>checkMotion\<close> that got past the
  guard, up to and including the call that resolves, the filtered motion of that call
  and the encoded frame it took.
\<close>

definition filteredMotion_at :: "stab_state \<Rightarrow> sample \<Rightarrow> real" where
  "filteredMotion_at st smp =
     fst (kf_filter (kFilter st) (real_of_int (rawMotionScore (prevData st) (currData smp))))"

fun candidate_trace :: "int \<Rightarrow> stab_state \<Rightarrow> sample list \<Rightarrow> (real \<times> string) list" where
  "candidate_trace startTime st [] = []"
| "candidate_trace startTime st (smp # rest) =
     (case checkMotion startTime st smp of
        Scheduled st' \<Rightarrow>
          (filteredMotion_at st smp, currentFrame smp) # candidate_trace startTime st' rest
      | Resolved f st' \<Rightarrow> [(filteredMotion_at st smp, currentFrame smp)]
      | Returned st' \<Rightarrow> [])"

text \<open>
  The bookkeeping of the best frame, against the candidates \<open>acc\<close> seen so far: before
  the first candidate nothing is recorded; afterwards the recorded frame is non-empty and
  is the frame of a candidate whose filtered motion is the recorded minimum, which no
  candidate is below.
\<close>

definition records_lowest :: "stab_state \<Rightarrow> (real \<times> string) list \<Rightarrow> bool" where
  "records_lowest st acc =
     (if acc = [] then minFilteredMotion st = None \<and> bestFrame st = []
      else bestFrame st \<noteq> [] \<and>
           (\<exists>m. minFilteredMotion st = Some m \<and> (m, bestFrame st) \<in> set acc \<and>
                (\<forall>e\<in>set acc. m \<le> fst e)))"

text \<open>
  The condition under which a call resolves, as the source writes it: the lock
  (\<open>currentStability > 95\<close> and \<open>timeElapsed > 400\<close>) or the timeout.
\<close>

definition lock_cond :: "int \<times> real \<Rightarrow> bool" where
  "lock_cond e = (snd e > 95 \<and> fst e > 400)"

definition timeout_cond :: "int \<times> real \<Rightarrow> bool" where
  "timeout_cond e = (fst e \<ge> MAX_DURATION)"

text \<open>
  The specification's words, for comparison: the time for which the stability level has
  exceeded the threshold of 95 without a break, at the last call of a trace. It is the
  time from the first call of the last unbroken run of calls above the threshold to the
  last call, and 0 when the last call is not above the threshold.
\<close>

definition dwell_above :: "(int \<times> real) list \<Rightarrow> int" where
  "dwell_above tr =
     (case takeWhile (\<lambda>e. snd e > 95) (rev tr) of
        [] \<Rightarrow> 0
      | e # es \<Rightarrow> fst e - fst (last (e # es)))"

text \<open>A frame buffer whose bytes are all the same value.\<close>

definition flat_frame :: "8 word \<Rightarrow> frame" where
  "flat_frame v = replicate (mSize * mSize * 4) v"

section \<open>Capture and analysis: \<open>captureAndAnalyze\<close>\<close>

text \<open>
  Source (components/VisualAssistant.tsx, lines 173-181 and 246-293).
  \<^verbatim>\<open>
  const performOfflineOCR = async (base64Image: string): Promise<string> => {
    ...
    const { data: { text } } = await Tesseract.recognize(..., langCode);
    return text.trim() || "No clear text found in the image.";
  };
  \<close>
  \<^verbatim>\<open>
  const captureAndAnalyze = useCallback(async (mode: 'read' | 'summarize' | 'explain') => {
    if (!videoRef.current || !canvasRef.current || isProcessing || isStabilizing) return;
    setIsStabilizing(true); setStabilityLevel(0); setResultText('');
    try {
      const stabilizedBase64 = await getStabilizedFrame();
      setIsStabilizing(false); setIsProcessing(true);
      if (isOnline) {
        try {
          const text = await retryTask(() => describeImage(stabilizedBase64, preferences, mode));
          setResultText(text);
          const audioData = await retryTask(() => generateSpeech(text, preferences.voiceName));
          ... decode and start the audio ...
        } catch (apiError) {
          const offlineText = await performOfflineOCR(stabilizedBase64);
          setResultText(`(Offline Fallback) ${offlineText}`);
          speakOffline(offlineText);
        }
      } else {
        const offlineText = await performOfflineOCR(stabilizedBase64);
        let finalDisplay = offlineText;
        if (mode !== 'read') {
          finalDisplay = `Offline Mode: Only basic reading is available. Text found: ${offlineText}`;
        }
        setResultText(finalDisplay);
        speakOffline(offlineText);
      }
    } catch (err) {
      setResultText("I couldn't process the image. Please try again.");
    } finally {
      setIsStabilizing(false); setIsProcessing(false); setStabilityLevel(0);
    }
  }, ...);
  \<close>
  The collaborators are parameters: \<open>describeImage\<close> and \<open>generateSpeech\<close> give the
  outcome of their \<open>k\<close>-th invocation (the form \<open>retryTask\<close> takes), \<open>playAudio\<close> is
  the decoding and starting of the returned audio, and \<open>recognize\<close> is
  \<open>Tesseract.recognize\<close>; each may throw (\<open>Inl\<close>). Errors are their messages.
  The component state has the prefix \<open>ui_\<close>, \<open>stabilityLevel\<close> being a field of
  \<open>stab_state\<close> already.
\<close>

datatype mode = Read | Summarize | Explain

datatype speech = RemoteAudio string | LocalSpeech string

record capture_env =
  refs_present :: bool
  isOnline :: bool
  startTime :: int
  samples :: "sample list"
  describeImage :: "string \<Rightarrow> mode \<Rightarrow> nat \<Rightarrow> string + string"
  generateSpeech :: "string \<Rightarrow> nat \<Rightarrow> string + string"
  playAudio :: "string \<Rightarrow> string + unit"
  recognize :: "string \<Rightarrow> string + string"

record visual_ui =
  ui_isProcessing :: bool
  ui_isStabilizing :: bool
  ui_stabilityLevel :: real
  ui_resultText :: string
  ui_spoken :: "speech list"

text \<open>
  \<open>trim\<close> removes white space at both ends. Characters are bytes here, so the white
  space is that of ASCII: tab, line feed, vertical tab, form feed, carriage return, space.
  The \<open>trim\<close> of JavaScript also removes the white space beyond ASCII (the no-break
  space U+00A0, U+FEFF, the space separators of Unicode, the line separators U+2028 and
  U+2029), which a byte string does not have as single characters: texts here are ASCII.
\<close>

definition is_space :: "char \<Rightarrow> bool" where
  "is_space c = (c \<in> {CHR 0x09, CHR 0x0A, CHR 0x0B, CHR 0x0C, CHR 0x0D, CHR '' ''})"

definition trim :: "string \<Rightarrow> string" where
  "trim s = rev (dropWhile is_space (rev (dropWhile is_space s)))"

definition performOfflineOCR :: "capture_env \<Rightarrow> string \<Rightarrow> string + string" where
  "performOfflineOCR env base64Image =
     (case recognize env base64Image of
        Inl err \<Rightarrow> Inl err
      | Inr text \<Rightarrow>
          Inr (if trim text \<noteq> [] then trim text else ''No clear text found in the image.''))"

text \<open>
  The inner \<open>try\<close> block of the online branch: the text and the audio it ends with, or
  the error (\<open>apiError\<close>) it throws.
\<close>

definition remote_path :: "capture_env \<Rightarrow> string \<Rightarrow> mode \<Rightarrow> string thrown + string \<times> string" where
  "remote_path env stabilizedBase64 mode =
     (case outcome (retryTask (describeImage env stabilizedBase64 mode) None None) of
        Inl err \<Rightarrow> Inl err
      | Inr text \<Rightarrow>
          (case outcome (retryTask (generateSpeech env text) None None) of
             Inl err \<Rightarrow> Inl err
           | Inr audioData \<Rightarrow>
               (case playAudio env audioData of
                  Inl err \<Rightarrow> Inl (TaskError err)
                | Inr u \<Rightarrow> Inr (text, audioData))))"

definition captureAndAnalyze :: "capture_env \<Rightarrow> mode \<Rightarrow> visual_ui \<Rightarrow> visual_ui option" where
  "captureAndAnalyze env mode ui =
     (if \<not> refs_present env \<or> ui_isProcessing ui \<or> ui_isStabilizing ui then Some ui
      else
        case getStabilizedFrame (startTime env) (samples env) of
          None \<Rightarrow> None
        | Some stabilizedBase64 \<Rightarrow>
            let failed = (''I couldn'' @ [CHR 0x27] @ ''t process the image. Please try again.'', []);
                (resultText, spoken) =
                  (if isOnline env then
                     (case remote_path env stabilizedBase64 mode of
                        Inr (text, audioData) \<Rightarrow> (text, [RemoteAudio audioData])
                      | Inl apiError \<Rightarrow>
                          (case performOfflineOCR env stabilizedBase64 of
                             Inl err \<Rightarrow> failed
                           | Inr offlineText \<Rightarrow>
                               (''(Offline Fallback) '' @ offlineText, [LocalSpeech offlineText])))
                   else
                     (case performOfflineOCR env stabilizedBase64 of
                        Inl err \<Rightarrow> failed
                      | Inr offlineText \<Rightarrow>
                          let finalDisplay =
                                (if mode \<noteq> Read
                                 then ''Offline Mode: Only basic reading is available. Text found: ''
                                        @ offlineText
                                 else offlineText)
                          in (finalDisplay, [LocalSpeech offlineText])))
            in Some \<lparr>ui_isProcessing = False, ui_isStabilizing = False, ui_stabilityLevel = 0,
                     ui_resultText = resultText, ui_spoken = ui_spoken ui @ spoken\<rparr>)"

section \<open>Hearing assistant: the \<open>onmessage\<close> handler of a live session\<close>

text \<open>
  Source (the \<open>HearingAssistant\<close> component, lines 525-657 of the same file). The
  component state is \<open>transcript\<close>, \<open>currentInput\<close> and \<open>currentOutput\<close>
  (\<open>useState\<close>), and the refs \<open>nextStartTimeRef\<close> and \<open>sourcesRef\<close>.
  \<^verbatim>\<open>
  onmessage: async (msg: any) => {
    if (msg.serverContent?.inputTranscription) {
      setCurrentInput(prev => prev + msg.serverContent.inputTranscription.text);
    }
    if (msg.serverContent?.outputTranscription) {
      setCurrentOutput(prev => prev + msg.serverContent.outputTranscription.text);
    }
    const base64Audio = msg.serverContent?.modelTurn?.parts?.[0]?.inlineData?.data;
    if (base64Audio && outputAudioContextRef.current) {
      const ctx = outputAudioContextRef.current;
      nextStartTimeRef.current = Math.max(nextStartTimeRef.current, ctx.currentTime);
      const audioData = decodeBase64(base64Audio);
      const audioBuffer = await decodeAudioData(audioData, ctx, 24000, 1);
      const source = ctx.createBufferSource();
      source.buffer = audioBuffer;
      source.playbackRate.value = preferences.speechRate;
      source.connect(ctx.destination);
      source.addEventListener('ended', () => { sourcesRef.current.delete(source); });
      source.start(nextStartTimeRef.current);
      nextStartTimeRef.current += audioBuffer.duration / preferences.speechRate;
      sourcesRef.current.add(source);
    }
    if (msg.serverContent?.interrupted) {
      sourcesRef.current.forEach(s => { try { s.stop(); } catch(e) {} });
      sourcesRef.current.clear();
      nextStartTimeRef.current = 0;
    }
    if (msg.serverContent?.turnComplete) {
      setTranscript(prev => [
        ...prev,
        { text: currentInput, timestamp: Date.now(), speaker: 'user' as const },
        { text: currentOutput, timestamp: Date.now(), speaker: 'model' as const }
      ].filter((t): t is TranscriptionEntry => t.text.trim() !== ''));
      setCurrentInput('');
      setCurrentOutput('');
    }
  },
  \<close>
  The handler is created once, inside \<open>startSession\<close>, and handed to the session. The
  names \<open>currentInput\<close>, \<open>currentOutput\<close> and \<open>preferences\<close> that its body reads
  (not the updater functions, which receive \<open>prev\<close>) are the constants of the render
  whose \<open>startSession\<close> was called: they are fixed for the life of the session. These
  captured values are the record \<open>session_closure\<close>, a parameter of the handler, beside
  the component state it updates through the setters and the refs.

  Every buffer source the handler creates is an entry of \<open>nodes\<close>, and its identity is
  its position there; \<open>sources\<close> (the set \<open>sourcesRef.current\<close>) holds identities.
  Messages are handled one after the other.
\<close>

datatype speaker = User | Model

record TranscriptionEntry =
  "text" :: string
  timestamp :: int
  speaker :: speaker

record source_node =
  buffer_duration :: real
  playbackRate :: real
  start_when :: real
  stopped :: bool

record hearing_state =
  transcript :: "TranscriptionEntry list"
  currentInput :: string
  currentOutput :: string
  nextStartTime :: real
  sources :: "nat set"
  nodes :: "source_node list"

record session_closure =
  cl_currentInput :: string
  cl_currentOutput :: string
  cl_speechRate :: real

record serverContent =
  inputTranscription :: "string option"
  outputTranscription :: "string option"
  inlineData :: "string option"
  interrupted :: bool
  turnComplete :: bool

text \<open>
  What the handler reads from the world while it handles one message: the clock of the
  output audio context (\<open>None\<close> when \<open>outputAudioContextRef.current\<close> is null), the
  duration of the buffer that \<open>decodeAudioData\<close> (not part of these sources) returns
  for the chunk, and the two readings of \<open>Date.now()\<close>.
\<close>

record msg_env =
  ctx_currentTime :: "real option"
  decoded_duration :: real
  date_now1 :: int
  date_now2 :: int

definition startSession_closure :: "hearing_state \<Rightarrow> real \<Rightarrow> session_closure" where
  "startSession_closure st speechRate =
     \<lparr>cl_currentInput = currentInput st, cl_currentOutput = currentOutput st,
      cl_speechRate = speechRate\<rparr>"

definition schedule_chunk :: "session_closure \<Rightarrow> real \<Rightarrow> real \<Rightarrow> hearing_state \<Rightarrow> hearing_state" where
  "schedule_chunk cl ctx_time duration st =
     (let st1 = st\<lparr>nextStartTime := max (nextStartTime st) ctx_time\<rparr>;
          source = \<lparr>buffer_duration = duration, playbackRate = cl_speechRate cl,
                    start_when = nextStartTime st1, stopped = False\<rparr>;
          ident = length (nodes st1);
          st2 = st1\<lparr>nodes := nodes st1 @ [source]\<rparr>;
          st3 = st2\<lparr>nextStartTime := nextStartTime st2 + duration / cl_speechRate cl\<rparr>
      in st3\<lparr>sources := insert ident (sources st3)\<rparr>)"

definition stop_node :: "nat set \<Rightarrow> nat \<times> source_node \<Rightarrow> source_node" where
  "stop_node live e = (if fst e \<in> live then (snd e)\<lparr>stopped := True\<rparr> else snd e)"

definition handle_interrupted :: "hearing_state \<Rightarrow> hearing_state" where
  "handle_interrupted st =
     st\<lparr>nodes := map (stop_node (sources st)) (enumerate 0 (nodes st)),
        sources := {},
        nextStartTime := 0\<rparr>"

definition handle_turnComplete :: "session_closure \<Rightarrow> msg_env \<Rightarrow> hearing_state \<Rightarrow> hearing_state" where
  "handle_turnComplete cl env st =
     st\<lparr>transcript :=
          filter (\<lambda>t. trim (text t) \<noteq> [])
            (transcript st @
             [\<lparr>text = cl_currentInput cl, timestamp = date_now1 env, speaker = User\<rparr>,
              \<lparr>text = cl_currentOutput cl, timestamp = date_now2 env, speaker = Model\<rparr>]),
        currentInput := [],
        currentOutput := []\<rparr>"

definition handle_transcriptions :: "serverContent \<Rightarrow> hearing_state \<Rightarrow> hearing_state" where
  "handle_transcriptions sc st =
     (let st1 = (case inputTranscription sc of
                   None \<Rightarrow> st
                 | Some t \<Rightarrow> st\<lparr>currentInput := currentInput st @ t\<rparr>)
      in case outputTranscription sc of
           None \<Rightarrow> st1
         | Some t \<Rightarrow> st1\<lparr>currentOutput := currentOutput st1 @ t\<rparr>)"

definition handle_audio ::
  "session_closure \<Rightarrow> msg_env \<Rightarrow> serverContent \<Rightarrow> hearing_state \<Rightarrow> hearing_state" where
  "handle_audio cl env sc st =
     (case (inlineData sc, ctx_currentTime env) of
        (Some base64Audio, Some ctx_time) \<Rightarrow>
          if base64Audio \<noteq> []
          then schedule_chunk cl ctx_time (decoded_duration env) st
          else st
      | _ \<Rightarrow> st)"

text \<open>
  The handler: its four blocks in order (the two transcription \<open>if\<close>s, the audio
  block, the interruption block, the turn-complete block). A message without
  \<open>serverContent\<close> is \<open>None\<close> and enters no block.
\<close>

definition onmessage ::
  "session_closure \<Rightarrow> msg_env \<Rightarrow> serverContent option \<Rightarrow> hearing_state \<Rightarrow> hearing_state" where
  "onmessage cl env msg st =
     (case msg of
        None \<Rightarrow> st
      | Some sc \<Rightarrow>
          let st2 = handle_transcriptions sc st;
              st3 = handle_audio cl env sc st2;
              st4 = (if interrupted sc then handle_interrupted st3 else st3);
              st5 = (if turnComplete sc then handle_turnComplete cl env st4 else st4)
          in st5)"

text \<open>The handler of the \<open>ended\<close> event of the source with identity \<open>ident\<close>.\<close>

definition on_ended :: "nat \<Rightarrow> hearing_state \<Rightarrow> hearing_state" where
  "on_ended ident st = st\<lparr>sources := sources st - {ident}\<rparr>"

text \<open>
  What happens to a session, in order: a message arrives (with what the handler reads
  from the world while handling it), or a scheduled source ends.
\<close>

datatype event = Message msg_env "serverContent option" | Ended nat

fun handle_event :: "session_closure \<Rightarrow> event \<Rightarrow> hearing_state \<Rightarrow> hearing_state" where
  "handle_event cl (Message env msg) st = onmessage cl env msg st"
| "handle_event cl (Ended ident) st = on_ended ident st"

fun run_session :: "session_closure \<Rightarrow> event list \<Rightarrow> hearing_state \<Rightarrow> hearing_state" where
  "run_session cl [] st = st"
| "run_session cl (e # es) st = run_session cl es (handle_event cl e st)"

text \<open>
  An event of gapless playback: the end of a source, or a message that carries an audio
  chunk (non-empty data, while the output context exists) and no interruption, the
  decoded buffer having a duration that is not negative.
\<close>

fun playback_event :: "event \<Rightarrow> bool" where
  "playback_event (Ended ident) = True"
| "playback_event (Message env None) = False"
| "playback_event (Message env (Some sc)) =
     (case (inlineData sc, ctx_currentTime env) of
        (Some base64Audio, Some ctx_time) \<Rightarrow>
          base64Audio \<noteq> [] \<and> \<not> interrupted sc \<and> 0 \<le> decoded_duration env
      | _ \<Rightarrow> False)"

fun is_message :: "event \<Rightarrow> bool" where
  "is_message (Message env msg) = True"
| "is_message (Ended ident) = False"

text \<open>The time at which a scheduled source ends, and the relation "ends before it starts".\<close>

definition node_end :: "source_node \<Rightarrow> real" where
  "node_end n = start_when n + buffer_duration n / playbackRate n"

definition ends_before :: "source_node \<Rightarrow> source_node \<Rightarrow> bool" where
  "ends_before a b = (node_end a \<le> start_when b)"

text \<open>
  The state of the component when it is mounted, and the messages of the claims: one
  that carries only a fragment of the captured (input) transcription, of the produced
  (output) transcription, an audio chunk, an interruption, or the end of the turn.
\<close>

definition hearing_init :: hearing_state where
  "hearing_init = \<lparr>transcript = [], currentInput = [], currentOutput = [],
                   nextStartTime = 0, sources = {}, nodes = []\<rparr>"

definition no_content :: serverContent where
  "no_content = \<lparr>inputTranscription = None, outputTranscription = None, inlineData = None,
                 interrupted = False, turnComplete = False\<rparr>"

definition msg_input :: "string \<Rightarrow> serverContent option" where
  "msg_input t = Some (no_content\<lparr>inputTranscription := Some t\<rparr>)"

definition msg_output :: "string \<Rightarrow> serverContent option" where
  "msg_output t = Some (no_content\<lparr>outputTranscription := Some t\<rparr>)"

definition msg_audio :: "string \<Rightarrow> serverContent option" where
  "msg_audio base64Audio = Some (no_content\<lparr>inlineData := Some base64Audio\<rparr>)"

definition msg_interrupted :: "serverContent option" where
  "msg_interrupted = Some (no_content\<lparr>interrupted := True\<rparr>)"

definition msg_turnComplete :: "serverContent option" where
  "msg_turnComplete = Some (no_content\<lparr>turnComplete := True\<rparr>)"

section \<open>Concrete runs\<close>

text \<open>
  A stabilization attempt of six samples, 80 to 100 ms apart. The camera moves between
  the first four samples (the whole image changes by 2 of 255 levels each time) and is
  still from the fourth sample on.
\<close>

definition dip_samples :: "sample list" where
  "dip_samples =
     [\<lparr>refs_ok = True, currData = flat_frame 0, currentFrame = ''f1'', now = 0\<rparr>,
      \<lparr>refs_ok = True, currData = flat_frame 2, currentFrame = ''f2'', now = 100\<rparr>,
      \<lparr>refs_ok = True, currData = flat_frame 0, currentFrame = ''f3'', now = 200\<rparr>,
      \<lparr>refs_ok = True, currData = flat_frame 2, currentFrame = ''f4'', now = 300\<rparr>,
      \<lparr>refs_ok = True, currData = flat_frame 2, currentFrame = ''f5'', now = 400\<rparr>,
      \<lparr>refs_ok = True, currData = flat_frame 2, currentFrame = ''f6'', now = 480\<rparr>]"

text \<open>
  An attempt in which the image changes by the largest amount possible between the two
  samples, the second of which is taken when the time is up.
\<close>

definition shaky_samples :: "sample list" where
  "shaky_samples =
     [\<lparr>refs_ok = True, currData = flat_frame 0, currentFrame = ''a'', now = 0\<rparr>,
      \<lparr>refs_ok = True, currData = flat_frame 255, currentFrame = ''b'', now = 3000\<rparr>]"

text \<open>
  Attempts on a video that has no dimensions yet (the camera has not delivered a frame):
  the 64x64 image data is all zero and the full-resolution canvas, 0 by 0, encodes to a
  data URL with nothing after the comma. In the first the second sample is taken 450 ms
  into the attempt, in the second when the time is up.
\<close>

definition blank_lock_samples :: "sample list" where
  "blank_lock_samples =
     [\<lparr>refs_ok = True, currData = flat_frame 0, currentFrame = [], now = 0\<rparr>,
      \<lparr>refs_ok = True, currData = flat_frame 0, currentFrame = [], now = 450\<rparr>]"

definition blank_timeout_samples :: "sample list" where
  "blank_timeout_samples =
     [\<lparr>refs_ok = True, currData = flat_frame 0, currentFrame = [], now = 0\<rparr>,
      \<lparr>refs_ok = True, currData = flat_frame 255, currentFrame = [], now = 3000\<rparr>]"

text \<open>
  An attempt whose first sample is processed, and at whose second call a ref of the guard
  is gone (the component has been unmounted).
\<close>

definition lost_ref_samples :: "sample list" where
  "lost_ref_samples =
     [\<lparr>refs_ok = True, currData = flat_frame 0, currentFrame = ''a'', now = 0\<rparr>,
      \<lparr>refs_ok = False, currData = flat_frame 0, currentFrame = ''b'', now = 80\<rparr>,
      \<lparr>refs_ok = True, currData = flat_frame 0, currentFrame = ''c'', now = 3000\<rparr>]"

text \<open>
  A device that is online while the remote service fails every call; the local engine
  reads the text "STOP" with white space around it.
\<close>

definition failing_remote_env :: capture_env where
  "failing_remote_env =
     \<lparr>refs_present = True, isOnline = True, startTime = 0,
      samples = [\<lparr>refs_ok = True, currData = flat_frame 0, currentFrame = ''img'', now = 3000\<rparr>],
      describeImage = (\<lambda>img mode i. Inl ''503''),
      generateSpeech = (\<lambda>t i. Inr ''audio''),
      playAudio = (\<lambda>a. Inr ()),
      recognize = (\<lambda>img. Inr ''  STOP  '')\<rparr>"

text \<open>A session at double speed, and an audio chunk of a given duration at a given clock.\<close>

definition fast_session :: session_closure where
  "fast_session = \<lparr>cl_currentInput = [], cl_currentOutput = [], cl_speechRate = 2\<rparr>"

definition env_at :: "real \<Rightarrow> real \<Rightarrow> msg_env" where
  "env_at t d = \<lparr>ctx_currentTime = Some t, decoded_duration = d, date_now1 = 0, date_now2 = 0\<rparr>"

definition chunk_at :: "real \<Rightarrow> real \<Rightarrow> event" where
  "chunk_at t d = Message (env_at t d) (msg_audio ''AAAA'')"

section \<open>The retry loop\<close>

lemma retry_loop_success:
  assumes "\<And>i. c \<le> i \<Longrightarrow> i < N \<Longrightarrow> isl (task i)"
    and "task N = Inr v"
    and "c \<le> N"
    and "a + int (N - c) \<le> m"
  shows "retry_loop task m d a c w =
           \<lparr>outcome = Inr v, invocations = Suc N, waited = w + int (N - c) * d\<rparr>"
  using assms
proof (induction "N - c" arbitrary: a c w)
  case 0
  then have "c = N" by simp
  with 0 show ?case
    by (subst retry_loop.simps) simp
next
  case (Suc k)
  then have lt: "c < N" by simp
  with Suc.prems(1) [of c] obtain err where err: "task c = Inl err"
    by (cases "task c") auto
  from Suc.prems(4) lt have am: "a < m" by linarith
  have k: "k = N - Suc c" using Suc.hyps(2) by simp
  have "retry_loop task m d (a + 1) (Suc c) (w + d) =
          \<lparr>outcome = Inr v, invocations = Suc N, waited = (w + d) + int (N - Suc c) * d\<rparr>"
  proof (rule Suc.hyps(1) [OF k])
    show "isl (task i)" if "Suc c \<le> i" "i < N" for i
      using that Suc.prems(1) [of i] by simp
    show "task N = Inr v" by (rule Suc.prems(2))
    show "Suc c \<le> N" using lt by simp
    show "a + 1 + int (N - Suc c) \<le> m" using Suc.prems(4) lt by linarith
  qed
  moreover have "(w + d) + int (N - Suc c) * d = w + int (N - c) * d"
    using lt by (simp add: algebra_simps)
  ultimately show ?case
    using err am by (subst retry_loop.simps) simp
qed

lemma retry_loop_exhaust:
  assumes "\<And>i. c \<le> i \<Longrightarrow> i \<le> c + nat (m - a) \<Longrightarrow> isl (task i)"
    and "a \<le> m"
  shows "retry_loop task m d a c w =
           \<lparr>outcome = Inl (TaskError (projl (task (c + nat (m - a))))),
            invocations = Suc (c + nat (m - a)), waited = w + (m - a) * d\<rparr>"
  using assms
proof (induction "nat (m - a)" arbitrary: a c w)
  case 0
  then have eq: "a = m" by simp
  from 0(2) [of c] obtain err where "task c = Inl err"
    by (cases "task c") auto
  with eq show ?case
    by (subst retry_loop.simps) simp
next
  case (Suc k)
  then have am: "a < m" by linarith
  from Suc.prems(1) [of c] obtain err where err: "task c = Inl err"
    by (cases "task c") auto
  have k: "k = nat (m - (a + 1))" using Suc.hyps(2) by linarith
  have idx: "Suc c + nat (m - (a + 1)) = c + nat (m - a)" using am by linarith
  have "retry_loop task m d (a + 1) (Suc c) (w + d) =
          \<lparr>outcome = Inl (TaskError (projl (task (Suc c + nat (m - (a + 1)))))),
           invocations = Suc (Suc c + nat (m - (a + 1))),
           waited = (w + d) + (m - (a + 1)) * d\<rparr>"
  proof (rule Suc.hyps(1) [OF k])
    show "isl (task i)" if "Suc c \<le> i" "i \<le> Suc c + nat (m - (a + 1))" for i
      using that idx Suc.prems(1) [of i] by simp
    show "a + 1 \<le> m" using am by simp
  qed
  then have "retry_loop task m d (a + 1) (Suc c) (w + d) =
          \<lparr>outcome = Inl (TaskError (projl (task (c + nat (m - a))))),
           invocations = Suc (c + nat (m - a)),
           waited = (w + d) + (m - (a + 1)) * d\<rparr>"
    unfolding idx .
  moreover have "(w + d) + (m - (a + 1)) * d = w + (m - a) * d"
    by (simp add: algebra_simps)
  ultimately show ?case
    using err am by (subst retry_loop.simps) simp
qed

lemma retry_loop_final:
  assumes "a \<le> m"
  shows "c < invocations (retry_loop task m d a c w) \<and>
         (case outcome (retry_loop task m d a c w) of
            Inr v \<Rightarrow> task (invocations (retry_loop task m d a c w) - 1) = Inr v
          | Inl (TaskError e) \<Rightarrow>
              task (invocations (retry_loop task m d a c w) - 1) = Inl e \<and>
              int (invocations (retry_loop task m d a c w)) = int c + (m - a) + 1
          | Inl UnexpectedRetryFailure \<Rightarrow> False)"
  using assms
proof (induction task m d a c w rule: retry_loop.induct)
  case (1 task m d a c w)
  show ?case
  proof (cases "task c")
    case (Inr v)
    with 1(2) show ?thesis by (subst (1 2 3 4 5) retry_loop.simps) simp
  next
    case (Inl err)
    show ?thesis
    proof (cases "a = m")
      case True
      with Inl show ?thesis by (subst (1 2 3 4 5) retry_loop.simps) simp
    next
      case False
      with 1(2) have "a + 1 \<le> m" by simp
      from 1(1) [OF 1(2) Inl False this] Inl False 1(2) show ?thesis
        by (subst (1 2 3 4 5) retry_loop.simps) (auto split: sum.splits thrown.splits)
    qed
  qed
qed

lemma retry_loop_negative:
  "m < a \<Longrightarrow> retry_loop task m d a c w =
     \<lparr>outcome = Inl UnexpectedRetryFailure, invocations = c, waited = w\<rparr>"
  by (subst retry_loop.simps) simp


text \<open>
  Claim C2. For every task and every retry budget (a count \<open>maxRetries \<ge> 0\<close>): if the
  task fails on its first \<open>N\<close> invocations and then succeeds, then
  \<^item> with \<open>N \<le> maxRetries\<close>, \<open>retryTask\<close> returns the success value after exactly
    \<open>N + 1\<close> invocations (having waited the fixed delay \<open>N\<close> times);
  \<^item> with \<open>maxRetries < N\<close>, it invokes the task exactly \<open>maxRetries + 1\<close> times and
    throws the error of the last of these invocations, number \<open>maxRetries\<close>;
  \<^item> with both arguments omitted the budget is 2 and the delay 1000, so that the task is
    invoked \<open>min N 2 + 1 \<le> 3\<close> times.
\<close>

theorem retryTask_fail_N_then_succeed:
  assumes "\<forall>i<N. isl (task i)"
    and "task N = Inr v"
    and "0 \<le> maxRetries"
  shows "(int N \<le> maxRetries \<longrightarrow>
            retryTask task (Some maxRetries) (Some delay) =
              \<lparr>outcome = Inr v, invocations = N + 1, waited = int N * delay\<rparr>) \<and>
         (maxRetries < int N \<longrightarrow>
            retryTask task (Some maxRetries) (Some delay) =
              \<lparr>outcome = Inl (TaskError (projl (task (nat maxRetries)))),
               invocations = nat maxRetries + 1, waited = maxRetries * delay\<rparr>) \<and>
         retryTask task None None = retryTask task (Some 2) (Some 1000) \<and>
         invocations (retryTask task None None) = min N 2 + 1"
proof -
  have ok: "retry_loop task m d 0 0 0 =
              \<lparr>outcome = Inr v, invocations = N + 1, waited = int N * d\<rparr>"
    if "int N \<le> m" for m d
    using retry_loop_success [of 0 N task v 0 m d 0] assms(1,2) that by simp
  have ko: "retry_loop task m d 0 0 0 =
              \<lparr>outcome = Inl (TaskError (projl (task (nat m)))),
               invocations = nat m + 1, waited = m * d\<rparr>"
    if "m < int N" "0 \<le> m" for m d
  proof -
    have "isl (task i)" if "i \<le> nat m" for i
    proof -
      from that \<open>m < int N\<close> \<open>0 \<le> m\<close> have "i < N" by linarith
      with assms(1) show ?thesis by blast
    qed
    then show ?thesis
      using retry_loop_exhaust [of 0 m 0 task d 0] \<open>0 \<le> m\<close> by simp
  qed
  have dflt: "invocations (retry_loop task 2 1000 0 0 0) = min N 2 + 1"
  proof (cases "N \<le> 2")
    case True
    then show ?thesis using ok [of 2 1000] by simp
  next
    case False
    then show ?thesis using ko [of 2 1000] by simp
  qed
  show ?thesis
    using ok [of maxRetries delay] ko [of maxRetries delay] assms(3) dflt
    by (simp add: retryTask_def)
qed

theorem retryTask_fail_N_then_succeed_witness:
  "retryTask (\<lambda>i. if i < 2 then Inl (int i) else Inr ''ok'') (Some 2) (Some 1000) =
     \<lparr>outcome = Inr ''ok'', invocations = 3, waited = 2000\<rparr> \<and>
   retryTask (\<lambda>i. if i < 2 then Inl (int i) else Inr ''ok'') (Some 1) (Some 1000) =
     \<lparr>outcome = Inl (TaskError 1), invocations = 2, waited = 1000\<rparr> \<and>
   invocations (retryTask (\<lambda>i. if i < 2 then Inl (int i) else Inr ''ok'') None None) = 3"
  using retryTask_fail_N_then_succeed
          [of 2 "\<lambda>i. if i < 2 then Inl (int i) else Inr ''ok''" "''ok''" 2 1000]
        retryTask_fail_N_then_succeed
          [of 2 "\<lambda>i. if i < 2 then Inl (int i) else Inr ''ok''" "''ok''" 1 1000]
  by simp

text \<open>
  Claim C10. For every task and every retry budget \<open>maxRetries \<ge> 0\<close> (given, or the
  default 2), \<open>retryTask\<close> ends (\<open>retry_loop\<close> is a total function) in one of two
  ways: it returns the value that the last invocation of the task produced, or it rethrows
  the error that the last invocation threw, and this last invocation is then number
  \<open>maxRetries\<close>. The error fabricated after the loop, "Unexpected retry failure", is never
  the outcome.
\<close>

theorem retryTask_returns_or_rethrows:
  assumes "maxRetries_arg = None \<or> (\<exists>m. maxRetries_arg = Some m \<and> 0 \<le> m)"
  shows "0 < invocations (retryTask task maxRetries_arg delay_arg) \<and>
         ((\<exists>v. outcome (retryTask task maxRetries_arg delay_arg) = Inr v \<and>
               task (invocations (retryTask task maxRetries_arg delay_arg) - 1) = Inr v) \<or>
          (\<exists>e. outcome (retryTask task maxRetries_arg delay_arg) = Inl (TaskError e) \<and>
               task (invocations (retryTask task maxRetries_arg delay_arg) - 1) = Inl e \<and>
               int (invocations (retryTask task maxRetries_arg delay_arg)) =
                 (case maxRetries_arg of None \<Rightarrow> 2 | Some m \<Rightarrow> m) + 1)) \<and>
         outcome (retryTask task maxRetries_arg delay_arg) \<noteq> Inl UnexpectedRetryFailure"
proof -
  define m where "m = (case maxRetries_arg of None \<Rightarrow> 2 | Some m \<Rightarrow> m)"
  define d where "d = (case delay_arg of None \<Rightarrow> 1000 | Some d \<Rightarrow> (d::int))"
  have m0: "0 \<le> m" using assms by (auto simp: m_def)
  have eq: "retryTask task maxRetries_arg delay_arg = retry_loop task m d 0 0 0"
    by (simp add: retryTask_def m_def d_def)
  from retry_loop_final [OF m0, of 0 task d 0] show ?thesis
    unfolding eq m_def [symmetric]
    by (auto split: sum.splits thrown.splits)
qed

theorem retryTask_returns_or_rethrows_witness:
  "outcome (retryTask (\<lambda>i. (Inl (int i) :: int + string)) (Some 2) None) \<noteq>
     Inl UnexpectedRetryFailure \<and>
   outcome (retryTask (\<lambda>i. (Inl (int i) :: int + string)) None None) \<noteq>
     Inl UnexpectedRetryFailure \<and>
   0 < invocations (retryTask (\<lambda>i. (Inl (int i) :: int + string)) (Some 2) None)"
  using retryTask_returns_or_rethrows
          [of "Some 2" "\<lambda>i. (Inl (int i) :: int + string)" None]
        retryTask_returns_or_rethrows
          [of None "\<lambda>i. (Inl (int i) :: int + string)" None]
  by simp


section \<open>The smoothing filter's recursion\<close>

lemma kf_run_Nil: "kf_run [] = KalmanFilter_new"
  by (simp add: kf_run_def)

lemma kf_run_snoc: "kf_run (ms @ [m]) = snd (kf_filter (kf_run ms) m)"
  by (simp add: kf_run_def)

lemma kf_filter_fields:
  "kf_q (snd (kf_filter this m)) = kf_q this"
  "kf_r (snd (kf_filter this m)) = kf_r this"
  "kf_p (snd (kf_filter this m)) = (1 - kf_gain this) * (kf_p this + kf_q this)"
  "kf_x (snd (kf_filter this m)) = fst (kf_filter this m)"
  by (simp_all add: kf_filter_def kf_gain_def Let_def)

lemma kf_filter_fst: "fst (kf_filter this m) = kf_x this + kf_gain this * (m - kf_x this)"
  by (simp add: kf_filter_def kf_gain_def Let_def)

lemma kf_gain_bounds_gen:
  assumes "0 < kf_p this" "kf_q this = 1 / 10" "kf_r this = 1 / 2"
  shows "1 / 6 < kf_gain this \<and> kf_gain this < 1"
  using assms(1) unfolding kf_gain_def assms(2,3)
  by (simp add: field_simps)

lemma kf_run_inv:
  "kf_q (kf_run ms) = 1 / 10 \<and> kf_r (kf_run ms) = 1 / 2 \<and> 0 < kf_p (kf_run ms)"
proof (induction ms rule: rev_induct)
  case Nil
  show ?case by (simp add: kf_run_Nil KalmanFilter_new_def)
next
  case (snoc m ms)
  then have q: "kf_q (kf_run ms) = 1 / 10" and r: "kf_r (kf_run ms) = 1 / 2"
    and p: "0 < kf_p (kf_run ms)" by blast+
  have g: "0 < 1 - kf_gain (kf_run ms)"
    using kf_gain_bounds_gen [OF p q r] by simp
  have "0 < kf_p (kf_run ms) + kf_q (kf_run ms)"
    unfolding q using p by simp
  with g have "0 < (1 - kf_gain (kf_run ms)) * (kf_p (kf_run ms) + kf_q (kf_run ms))"
    by (rule mult_pos_pos)
  with q r show ?case
    unfolding kf_run_snoc kf_filter_fields by blast
qed

lemma kf_gain_bounds: "1 / 6 < kf_gain (kf_run ms) \<and> kf_gain (kf_run ms) < 1"
  using kf_gain_bounds_gen [of "kf_run ms"] kf_run_inv [of ms] by simp

lemma kf_zero_step:
  assumes "0 < kf_x (kf_run ms)"
  shows "0 < fst (kf_filter (kf_run ms) 0) \<and> fst (kf_filter (kf_run ms) 0) < kf_x (kf_run ms)
    \<and> fst (kf_filter (kf_run ms) 0) \<le> 5 / 6 * kf_x (kf_run ms)"
proof -
  have eq: "fst (kf_filter (kf_run ms) 0) = (1 - kf_gain (kf_run ms)) * kf_x (kf_run ms)"
    by (simp add: kf_filter_fst algebra_simps)
  from kf_gain_bounds [of ms] have "0 < 1 - kf_gain (kf_run ms)" "1 - kf_gain (kf_run ms) < 1"
    "1 - kf_gain (kf_run ms) \<le> 5 / 6" by simp_all
  moreover from this assms have "(1 - kf_gain (kf_run ms)) * kf_x (kf_run ms) \<le> 5 / 6 * kf_x (kf_run ms)"
    by (intro mult_right_mono) simp_all
  ultimately show ?thesis using assms unfolding eq
    by simp
qed

lemma kf_run_zeros_bound:
  assumes "0 \<le> kf_x (kf_run ms)"
  shows "0 \<le> kf_x (kf_run (ms @ replicate n 0)) \<and>
     kf_x (kf_run (ms @ replicate n 0)) \<le> (5 / 6) ^ n * kf_x (kf_run ms)"
proof (induction n)
  case 0
  show ?case using assms by simp
next
  case (Suc n)
  let ?s = "kf_run (ms @ replicate n 0)"
  have run: "kf_run (ms @ replicate (Suc n) 0) = snd (kf_filter ?s 0)"
    using kf_run_snoc [of "ms @ replicate n 0" 0] by (simp add: replicate_append_same)
  have eq: "kf_x (snd (kf_filter ?s 0)) = (1 - kf_gain ?s) * kf_x ?s"
    by (simp add: kf_filter_fields(4) kf_filter_fst algebra_simps)
  from kf_gain_bounds [of "ms @ replicate n 0"]
  have g: "0 \<le> 1 - kf_gain ?s" "1 - kf_gain ?s \<le> 5 / 6" by simp_all
  have "(1 - kf_gain ?s) * kf_x ?s \<le> 5 / 6 * kf_x ?s"
    using g(2) Suc by (intro mult_right_mono) simp_all
  also have "\<dots> \<le> 5 / 6 * ((5 / 6) ^ n * kf_x (kf_run ms))"
    using Suc by simp
  finally have "(1 - kf_gain ?s) * kf_x ?s \<le> (5 / 6) ^ Suc n * kf_x (kf_run ms)"
    by simp
  moreover have "0 \<le> (1 - kf_gain ?s) * kf_x ?s" using g Suc by simp
  ultimately show ?case unfolding run eq by simp
qed

lemma kf_run_zeros_tendsto:
  assumes "0 \<le> kf_x (kf_run ms)"
  shows "(\<lambda>n. kf_x (kf_run (ms @ replicate n 0))) \<longlonglongrightarrow> 0"
proof (rule tendsto_sandwich [where f = "\<lambda>n. 0" and h = "\<lambda>n. (5 / 6) ^ n * kf_x (kf_run ms)"])
  show "\<forall>\<^sub>F n in sequentially. 0 \<le> kf_x (kf_run (ms @ replicate n 0))"
    using kf_run_zeros_bound [OF assms] by simp
  show "\<forall>\<^sub>F n in sequentially. kf_x (kf_run (ms @ replicate n 0)) \<le> (5 / 6) ^ n * kf_x (kf_run ms)"
    using kf_run_zeros_bound [OF assms] by simp
  show "(\<lambda>n. 0::real) \<longlonglongrightarrow> 0" by simp
  have "(\<lambda>n. (5 / 6 :: real) ^ n) \<longlonglongrightarrow> 0"
    by (rule LIMSEQ_realpow_zero) simp_all
  from tendsto_mult_right [OF this, of "kf_x (kf_run ms)"]
  show "(\<lambda>n. (5 / 6) ^ n * kf_x (kf_run ms)) \<longlonglongrightarrow> 0" by simp
qed


text \<open>
  Claim C8. Every call \<open>filter(measurement)\<close> performs the recursion
  \<open>p \<leftarrow> p + q\<close>; \<open>k \<leftarrow> p / (p + r)\<close>; \<open>x \<leftarrow> x + k (measurement - x)\<close>;
  \<open>p \<leftarrow> (1 - k) p\<close>, and returns the new \<open>x\<close>: written with the values before the
  call, the new estimate is \<open>x + k (measurement - x)\<close> for the gain
  \<open>k = (p + q) / (p + q + r)\<close>, the new covariance is \<open>(1 - k) (p + q)\<close>, and \<open>q\<close> and
  \<open>r\<close> are unchanged. On every filter object that exists (a new one after any
  measurements \<open>ms\<close>) the noises are the fixed \<open>q = 0.1\<close> and \<open>r = 0.5\<close> and the
  divisor \<open>p + q + r\<close> is positive, so the division is a proper one.
\<close>

theorem kf_filter_performs_recursion:
  "kf_filter this measurement =
     (let p1 = kf_p this + kf_q this;
          k = p1 / (p1 + kf_r this);
          x1 = kf_x this + k * (measurement - kf_x this)
      in (x1, \<lparr>kf_x = x1, kf_p = (1 - k) * p1, kf_q = kf_q this, kf_r = kf_r this\<rparr>)) \<and>
   kf_q (kf_run ms) = 1 / 10 \<and> kf_r (kf_run ms) = 1 / 2 \<and>
   0 < kf_p (kf_run ms) + kf_q (kf_run ms) + kf_r (kf_run ms)"
proof -
  have "kf_filter this measurement =
     (let p1 = kf_p this + kf_q this;
          k = p1 / (p1 + kf_r this);
          x1 = kf_x this + k * (measurement - kf_x this)
      in (x1, \<lparr>kf_x = x1, kf_p = (1 - k) * p1, kf_q = kf_q this, kf_r = kf_r this\<rparr>))"
    by (simp add: kf_filter_def Let_def)
  moreover have "0 < kf_p (kf_run ms) + kf_q (kf_run ms) + kf_r (kf_run ms)"
    using kf_run_inv [of ms] by simp
  ultimately show ?thesis
    using kf_run_inv [of ms] by blast
qed

section \<open>Motion scores of identical frames\<close>

lemma pixel_idx_bound:
  "gy < gridSize \<Longrightarrow> gx < gridSize \<Longrightarrow> y < blockSize \<Longrightarrow> x < blockSize \<Longrightarrow>
     pixel_idx gy gx y x < mSize * mSize * 4"
  by (simp add: pixel_idx_def)

lemma loop_x_const:
  "(\<And>idx. idx < mSize * mSize * 4 \<Longrightarrow> pixel_diff cur prev idx = c) \<Longrightarrow>
   gy < gridSize \<Longrightarrow> gx < gridSize \<Longrightarrow> y < blockSize \<Longrightarrow> x \<le> blockSize \<Longrightarrow> even x \<Longrightarrow>
   loop_x cur prev gy gx y x acc = acc + c * int ((blockSize - x) div 2)"
proof (induction cur prev gy gx y x acc rule: loop_x.induct)
  case (1 cur prev gy gx y x acc)
  show ?case
  proof (cases "x < blockSize")
    case False
    with 1(6) show ?thesis by (subst loop_x.simps) simp
  next
    case True
    have d: "pixel_diff cur prev (pixel_idx gy gx y x) = c"
      using 1(2) pixel_idx_bound [OF 1(3,4,5) True] by blast
    from True 1(7) have le: "x + 2 \<le> blockSize" by presburger
    have ev: "even (x + 2)" using 1(7) by simp
    have cnt: "int ((blockSize - x) div 2) = 1 + int ((blockSize - (x + 2)) div 2)"
      using le by simp
    have "loop_x cur prev gy gx y (x + 2) (acc + c) =
            acc + c + c * int ((blockSize - (x + 2)) div 2)"
      using 1(1) [OF True _ 1(3,4,5) le ev] 1(2) d by simp
    then show ?thesis
      using True d unfolding cnt by (subst loop_x.simps) (simp add: algebra_simps)
  qed
qed

lemma loop_y_const:
  "(\<And>idx. idx < mSize * mSize * 4 \<Longrightarrow> pixel_diff cur prev idx = c) \<Longrightarrow>
   gy < gridSize \<Longrightarrow> gx < gridSize \<Longrightarrow> y \<le> blockSize \<Longrightarrow> even y \<Longrightarrow>
   loop_y cur prev gy gx y acc = acc + 8 * c * int ((blockSize - y) div 2)"
proof (induction cur prev gy gx y acc rule: loop_y.induct)
  case (1 cur prev gy gx y acc)
  show ?case
  proof (cases "y < blockSize")
    case False
    with 1(5) show ?thesis by (subst loop_y.simps) simp
  next
    case True
    have row: "loop_x cur prev gy gx y 0 acc = acc + 8 * c"
      using loop_x_const [of cur prev c gy gx y 0 acc] 1(2,3,4) True by simp
    from True 1(6) have le: "y + 2 \<le> blockSize" by presburger
    have ev: "even (y + 2)" using 1(6) by simp
    have cnt: "int ((blockSize - y) div 2) = 1 + int ((blockSize - (y + 2)) div 2)"
      using le by simp
    have "loop_y cur prev gy gx (y + 2) (acc + 8 * c) =
            acc + 8 * c + 8 * c * int ((blockSize - (y + 2)) div 2)"
      using 1(1) [OF True _ 1(3,4) le ev] 1(2) row by simp
    then show ?thesis
      using True row unfolding cnt by (subst loop_y.simps) (simp add: algebra_simps)
  qed
qed

lemma loop_gx_const:
  "(\<And>idx. idx < mSize * mSize * 4 \<Longrightarrow> pixel_diff cur prev idx = c) \<Longrightarrow>
   gy < gridSize \<Longrightarrow> gx \<le> gridSize \<Longrightarrow>
   loop_gx cur prev gy gx acc = acc + 64 * c * int (gridSize - gx)"
proof (induction cur prev gy gx acc rule: loop_gx.induct)
  case (1 cur prev gy gx acc)
  show ?case
  proof (cases "gx < gridSize")
    case False
    with 1(4) show ?thesis by (subst loop_gx.simps) simp
  next
    case True
    have blk: "loop_y cur prev gy gx 0 0 = 64 * c"
      using loop_y_const [of cur prev c gy gx 0 0] 1(2,3) True by simp
    have cnt: "int (gridSize - gx) = 1 + int (gridSize - (gx + 1))"
      using True by simp
    have "loop_gx cur prev gy (gx + 1) (acc + 64 * c) =
            acc + 64 * c + 64 * c * int (gridSize - (gx + 1))"
      using 1(1) [OF True _ 1(3)] 1(2) True blk by simp
    then show ?thesis
      using True blk unfolding cnt by (subst loop_gx.simps) (simp add: algebra_simps)
  qed
qed

lemma loop_gy_const:
  "(\<And>idx. idx < mSize * mSize * 4 \<Longrightarrow> pixel_diff cur prev idx = c) \<Longrightarrow>
   gy \<le> gridSize \<Longrightarrow>
   loop_gy cur prev gy acc = acc + 256 * c * int (gridSize - gy)"
proof (induction cur prev gy acc rule: loop_gy.induct)
  case (1 cur prev gy acc)
  show ?case
  proof (cases "gy < gridSize")
    case False
    with 1(3) show ?thesis by (subst loop_gy.simps) simp
  next
    case True
    have blk: "loop_gx cur prev gy 0 acc = acc + 256 * c"
      using loop_gx_const [of cur prev c gy 0 acc] 1(2) True by simp
    have cnt: "int (gridSize - gy) = 1 + int (gridSize - (gy + 1))"
      using True by simp
    have "loop_gy cur prev (gy + 1) (acc + 256 * c) =
            acc + 256 * c + 256 * c * int (gridSize - (gy + 1))"
      using 1(1) [OF True] 1(2) True blk by simp
    then show ?thesis
      using True blk unfolding cnt by (subst loop_gy.simps) (simp add: algebra_simps)
  qed
qed

lemma rawMotionScore_const:
  assumes "\<And>idx. idx < mSize * mSize * 4 \<Longrightarrow> pixel_diff cur prev idx = c"
  shows "rawMotionScore (Some prev) cur = 1024 * c"
  using loop_gy_const [of cur prev c 0 0] assms by (simp add: rawMotionScore_def)

lemma rawMotionScore_same: "rawMotionScore (Some d) d = 0"
  using rawMotionScore_const [of d d 0] by (simp add: pixel_diff_def)


text \<open>
  Claim C9. For two identical consecutive frame buffers (of the size \<open>getImageData\<close>
  returns) the motion score is 0, and it is 0 on the first sample, which has no previous
  frame. Feeding such zero scores to a filter (a new one that has taken any measurements
  \<open>ms\<close> before) makes the estimate strictly smaller and keeps it positive, whenever the
  estimate is positive; from a non-negative estimate, \<open>n\<close> such samples bring it below
  \<open>(5/6)\<^sup>n\<close> of its value, so that it tends to 0. (A new filter that has only ever been
  fed zeros has the estimate 0 throughout.)
\<close>

theorem identical_frames_motion_zero_and_decay:
  assumes "wf_frame d"
  shows "rawMotionScore (Some d) d = 0 \<and>
         rawMotionScore None d = 0 \<and>
         (\<forall>n. let z = real_of_int (rawMotionScore (Some d) d);
                  before = kf_x (kf_run (ms @ replicate n z));
                  after = fst (kf_filter (kf_run (ms @ replicate n z)) z)
              in after = kf_x (kf_run (ms @ replicate (Suc n) z)) \<and>
                 (0 < before \<longrightarrow> 0 < after \<and> after < before)) \<and>
         (0 \<le> kf_x (kf_run ms) \<longrightarrow>
            (\<forall>n. kf_x (kf_run (ms @ replicate n (real_of_int (rawMotionScore (Some d) d))))
                   \<le> (5 / 6) ^ n * kf_x (kf_run ms)) \<and>
            (\<lambda>n. kf_x (kf_run (ms @ replicate n (real_of_int (rawMotionScore (Some d) d)))))
              \<longlonglongrightarrow> 0) \<and>
         (\<forall>n. kf_x (kf_run (replicate n (real_of_int (rawMotionScore (Some d) d)))) = 0)"
proof -
  have z: "real_of_int (rawMotionScore (Some d) d) = 0"
    by (simp add: rawMotionScore_same)
  have step: "fst (kf_filter (kf_run (ms @ replicate n 0)) 0) =
                kf_x (kf_run (ms @ replicate (Suc n) 0))" for n
    using kf_run_snoc [of "ms @ replicate n 0" 0]
    by (simp add: replicate_append_same kf_filter_fields(4))
  have fresh: "kf_x (kf_run (replicate n 0)) = 0" for n
  proof (induction n)
    case 0
    show ?case by (simp add: kf_run_Nil KalmanFilter_new_def)
  next
    case (Suc n)
    have "kf_run (replicate (Suc n) 0) = snd (kf_filter (kf_run (replicate n 0)) 0)"
      using kf_run_snoc [of "replicate n 0" 0] by (simp add: replicate_append_same)
    with Suc show ?case by (simp add: kf_filter_fields(4) kf_filter_fst)
  qed
  have a: "rawMotionScore (Some d) d = 0" by (rule rawMotionScore_same)
  have b: "rawMotionScore None d = 0" by (simp add: rawMotionScore_def)
  have c: "\<forall>n. let z = real_of_int (rawMotionScore (Some d) d);
                  before = kf_x (kf_run (ms @ replicate n z));
                  after = fst (kf_filter (kf_run (ms @ replicate n z)) z)
              in after = kf_x (kf_run (ms @ replicate (Suc n) z)) \<and>
                 (0 < before \<longrightarrow> 0 < after \<and> after < before)"
    unfolding z Let_def using step kf_zero_step by blast
  have e: "0 \<le> kf_x (kf_run ms) \<longrightarrow>
            (\<forall>n. kf_x (kf_run (ms @ replicate n (real_of_int (rawMotionScore (Some d) d))))
                   \<le> (5 / 6) ^ n * kf_x (kf_run ms)) \<and>
            (\<lambda>n. kf_x (kf_run (ms @ replicate n (real_of_int (rawMotionScore (Some d) d)))))
              \<longlonglongrightarrow> 0"
    unfolding z using kf_run_zeros_bound [of ms] kf_run_zeros_tendsto [of ms] by blast
  have f: "\<forall>n. kf_x (kf_run (replicate n (real_of_int (rawMotionScore (Some d) d)))) = 0"
    unfolding z using fresh by blast
  from a b c e f show ?thesis by blast
qed

theorem identical_frames_motion_zero_and_decay_witness:
  "wf_frame (replicate 16384 0) \<and>
   rawMotionScore (Some (replicate 16384 0)) (replicate 16384 0) = 0 \<and>
   0 < kf_x (kf_run [100]) \<and>
   0 < kf_x (kf_run [100, 0]) \<and>
   kf_x (kf_run [100, 0]) < kf_x (kf_run [100])"
proof -
  have wf: "wf_frame (replicate 16384 0)" by (simp add: wf_frame_def)
  have pos: "0 < kf_x (kf_run [100])"
    by (simp add: kf_run_def kf_filter_def KalmanFilter_new_def Let_def)
  from identical_frames_motion_zero_and_decay [OF wf, of "[100]"]
  have z: "rawMotionScore (Some (replicate 16384 0)) (replicate 16384 0) = 0"
    and st: "\<forall>n. let z = real_of_int (rawMotionScore (Some (replicate 16384 0)) (replicate 16384 0));
                  before = kf_x (kf_run ([100] @ replicate n z));
                  after = fst (kf_filter (kf_run ([100] @ replicate n z)) z)
              in after = kf_x (kf_run ([100] @ replicate (Suc n) z)) \<and>
                 (0 < before \<longrightarrow> 0 < after \<and> after < before)"
    by blast+
  from st [rule_format, of 0] pos
  have "0 < kf_x (kf_run [100, 0]) \<and> kf_x (kf_run [100, 0]) < kf_x (kf_run [100])"
    unfolding z Let_def by simp
  with wf z pos show ?thesis by blast
qed


section \<open>The stabilizer's termination policy\<close>

lemma rawMotionScore_flat:
  "rawMotionScore (Some (flat_frame a)) (flat_frame b) = 1024 * \<bar>uint b - uint a\<bar>"
  unfolding flat_frame_def by (rule rawMotionScore_const) (simp add: pixel_diff_def)

lemma rawMotionScore_None: "rawMotionScore None d = 0"
  by (simp add: rawMotionScore_def)

lemmas stab_eval =
  stab_init_def checkMotion_def stability_at_def rawMotionScore_flat rawMotionScore_None
  kf_filter_def KalmanFilter_new_def Let_def currentStability_def below_min_def

lemma checkMotion_Returned:
  "checkMotion start st smp = Returned st' \<longleftrightarrow> \<not> refs_ok smp \<and> st' = st"
  by (auto simp: checkMotion_def Let_def split_beta)

lemma checkMotion_Resolved:
  assumes "checkMotion start st smp = Resolved f st'"
  shows "refs_ok smp \<and> f = bestFrame st' \<and> stabilityLevel st' = 100 \<and>
         (lock_cond (now smp - start, stability_at st smp) \<or>
          timeout_cond (now smp - start, stability_at st smp)) \<and>
         (bestFrame st' = currentFrame smp \<or> bestFrame st' = bestFrame st \<and> bestFrame st \<noteq> [])"
  using assms
  by (auto simp: checkMotion_def Let_def split_beta stability_at_def lock_cond_def
        timeout_cond_def split: if_splits)

lemma checkMotion_Scheduled:
  assumes "checkMotion start st smp = Scheduled st'"
  shows "refs_ok smp \<and> stabilityLevel st' = stability_at st smp \<and>
         \<not> lock_cond (now smp - start, stability_at st smp) \<and>
         \<not> timeout_cond (now smp - start, stability_at st smp) \<and>
         (bestFrame st' = currentFrame smp \<or> bestFrame st' = bestFrame st \<and> bestFrame st \<noteq> [])"
  using assms
  by (auto simp: checkMotion_def Let_def split_beta stability_at_def lock_cond_def
        timeout_cond_def split: if_splits)

lemma checkMotion_resolves_iff:
  assumes "refs_ok smp"
  shows "(\<exists>f st'. checkMotion start st smp = Resolved f st') \<longleftrightarrow>
         lock_cond (now smp - start, stability_at st smp) \<or>
         timeout_cond (now smp - start, stability_at st smp)"
  using assms
  by (auto simp: checkMotion_def Let_def split_beta stability_at_def lock_cond_def
        timeout_cond_def split: if_splits)

lemma run_checks_resolves:
  "\<forall>smp\<in>set smps. refs_ok smp \<Longrightarrow>
   \<exists>smp\<in>set smps. MAX_DURATION \<le> now smp - start \<Longrightarrow>
   \<exists>f st'. run_checks start st smps = Resolved f st' \<and>
     (f \<in> currentFrame ` set smps \<or> f = bestFrame st \<and> bestFrame st \<noteq> [])"
proof (induction smps arbitrary: st)
  case Nil
  then show ?case by simp
next
  case (Cons smp rest)
  from Cons.prems(1) have ok: "refs_ok smp" by simp
  show ?case
  proof (cases "checkMotion start st smp")
    case (Resolved f st')
    with checkMotion_Resolved [OF Resolved] show ?thesis by auto
  next
    case (Scheduled st1)
    from checkMotion_Scheduled [OF Scheduled]
    have nt: "\<not> timeout_cond (now smp - start, stability_at st smp)"
      and bf: "bestFrame st1 = currentFrame smp \<or> bestFrame st1 = bestFrame st \<and> bestFrame st \<noteq> []"
      by blast+
    from nt Cons.prems(2) have ex: "\<exists>smp\<in>set rest. MAX_DURATION \<le> now smp - start"
      by (auto simp: timeout_cond_def)
    from Cons.prems(1) have all: "\<forall>smp\<in>set rest. refs_ok smp" by simp
    from Cons.IH [OF all ex, of st1] obtain f st' where
      r: "run_checks start st1 rest = Resolved f st'"
         "f \<in> currentFrame ` set rest \<or> f = bestFrame st1 \<and> bestFrame st1 \<noteq> []" by blast
    from r bf Scheduled show ?thesis by auto
  next
    case (Returned st1)
    with checkMotion_Returned [of start st smp st1] ok show ?thesis by simp
  qed
qed

text \<open>
  Claim C1, as stated: a lock happens only when the stability level has exceeded 95
  without a break for 400 ms. It fails on \<open>dip_samples\<close>. The level is above 95 at the
  first sample, at or below 95 at the samples taken 100, 200, 300 and 400 ms into the
  attempt, and above 95 again at the sample taken at 480 ms. That sample resolves the
  attempt, 2520 ms before the timeout, although the level has been above the threshold
  for no time at all (80 ms earlier it was not).
\<close>

theorem lock_without_dwell_counterexample:
  "getStabilizedFrame 0 dip_samples = Some ''f1'' \<and>
   attempt_trace 0 stab_init dip_samples =
     [(0, 100), (100, 643148 / 6795), (200, 1744556 / 18915), (300, 2580428 / 28395),
      (400, 67432748 / 715779), (480, 539471140 / 5601969)] \<and>
   map (\<lambda>e. snd e > 95) (attempt_trace 0 stab_init dip_samples) =
     [True, False, False, False, False, True] \<and>
   lock_cond (last (attempt_trace 0 stab_init dip_samples)) \<and>
   \<not> timeout_cond (last (attempt_trace 0 stab_init dip_samples)) \<and>
   dwell_above (attempt_trace 0 stab_init dip_samples) < 400"
proof -
  have a: "getStabilizedFrame 0 dip_samples = Some ''f1''"
    by (simp add: getStabilizedFrame_def dip_samples_def stab_eval)
  have b: "attempt_trace 0 stab_init dip_samples =
     [(0, 100), (100, 643148 / 6795), (200, 1744556 / 18915), (300, 2580428 / 28395),
      (400, 67432748 / 715779), (480, 539471140 / 5601969)]"
    by (simp add: dip_samples_def stab_eval)
  have c: "map (\<lambda>e. snd e > 95) (attempt_trace 0 stab_init dip_samples) =
             [True, False, False, False, False, True]"
    unfolding b by simp
  have d: "lock_cond (last (attempt_trace 0 stab_init dip_samples))"
    unfolding b by (simp add: lock_cond_def)
  have e: "\<not> timeout_cond (last (attempt_trace 0 stab_init dip_samples))"
    unfolding b by (simp add: timeout_cond_def)
  have f: "dwell_above (attempt_trace 0 stab_init dip_samples) = 0"
    unfolding b by (simp add: dwell_above_def)
  from a b c d e f show ?thesis by simp
qed

text \<open>
  Claim C1, amended. A call of \<open>checkMotion\<close> that passes its guard resolves the
  attempt exactly when the stability level computed from the current sample exceeds 95
  and more than 400 ms have passed since the attempt began (the lock), or at least 3000
  ms have passed (the timeout). So an attempt that resolves does so at the first sample
  that meets one of the two conditions, with \<open>stabilityLevel\<close> forced to 100 and with
  the best frame as its value; an attempt that is still running, or that stopped at the
  guard, has met neither condition at any sample.
\<close>

theorem resolves_iff_lock_or_timeout:
  "(refs_ok smp \<longrightarrow>
      ((\<exists>f st'. checkMotion start st smp = Resolved f st') \<longleftrightarrow>
       lock_cond (now smp - start, stability_at st smp) \<or>
       timeout_cond (now smp - start, stability_at st smp))) \<and>
   (case run_checks start st smps of
      Resolved f st' \<Rightarrow>
        attempt_trace start st smps \<noteq> [] \<and>
        (lock_cond (last (attempt_trace start st smps)) \<or>
         timeout_cond (last (attempt_trace start st smps))) \<and>
        (\<forall>e\<in>set (butlast (attempt_trace start st smps)). \<not> lock_cond e \<and> \<not> timeout_cond e) \<and>
        stabilityLevel st' = 100 \<and> f = bestFrame st'
    | Scheduled st' \<Rightarrow>
        length (attempt_trace start st smps) = length smps \<and>
        (\<forall>e\<in>set (attempt_trace start st smps). \<not> lock_cond e \<and> \<not> timeout_cond e)
    | Returned st' \<Rightarrow>
        (\<exists>smp\<in>set smps. \<not> refs_ok smp) \<and>
        (\<forall>e\<in>set (attempt_trace start st smps). \<not> lock_cond e \<and> \<not> timeout_cond e))"
proof -
  have tick: "refs_ok smp \<longrightarrow>
      ((\<exists>f st'. checkMotion start st smp = Resolved f st') \<longleftrightarrow>
       lock_cond (now smp - start, stability_at st smp) \<or>
       timeout_cond (now smp - start, stability_at st smp))"
    using checkMotion_resolves_iff [of smp start st] by blast
  have run: "(case run_checks start st smps of
          Resolved f st' \<Rightarrow>
            attempt_trace start st smps \<noteq> [] \<and>
            (lock_cond (last (attempt_trace start st smps)) \<or>
             timeout_cond (last (attempt_trace start st smps))) \<and>
            (\<forall>e\<in>set (butlast (attempt_trace start st smps)). \<not> lock_cond e \<and> \<not> timeout_cond e) \<and>
            stabilityLevel st' = 100 \<and> f = bestFrame st'
        | Scheduled st' \<Rightarrow>
            length (attempt_trace start st smps) = length smps \<and>
            (\<forall>e\<in>set (attempt_trace start st smps). \<not> lock_cond e \<and> \<not> timeout_cond e)
        | Returned st' \<Rightarrow>
            (\<exists>smp\<in>set smps. \<not> refs_ok smp) \<and>
            (\<forall>e\<in>set (attempt_trace start st smps). \<not> lock_cond e \<and> \<not> timeout_cond e))"
  proof (induction smps arbitrary: st)
    case Nil
    show ?case by simp
  next
    case (Cons smp rest)
    show ?case
    proof (cases "checkMotion start st smp")
      case (Resolved f st')
      with checkMotion_Resolved [OF Resolved] show ?thesis by simp
    next
      case (Scheduled st1)
      from checkMotion_Scheduled [OF Scheduled] Cons.IH [of st1] Scheduled show ?thesis
        by (cases "run_checks start st1 rest") (auto split: if_splits)
    next
      case (Returned st1)
      with checkMotion_Returned [of start st smp st1] show ?thesis by simp
    qed
  qed
  from tick run show ?thesis by blast
qed

theorem resolves_iff_lock_or_timeout_witness:
  "(\<exists>f st'. checkMotion 0 stab_init (last shaky_samples) = Resolved f st') \<and>
   attempt_trace 0 stab_init dip_samples \<noteq> [] \<and>
   (lock_cond (last (attempt_trace 0 stab_init dip_samples)) \<or>
    timeout_cond (last (attempt_trace 0 stab_init dip_samples)))"
proof -
  have ok: "refs_ok (last shaky_samples)"
    by (simp add: shaky_samples_def)
  have tm: "timeout_cond (now (last shaky_samples) - 0, stability_at stab_init (last shaky_samples))"
    by (simp add: shaky_samples_def timeout_cond_def)
  have res: "case run_checks 0 stab_init dip_samples of
               Resolved f st' \<Rightarrow> True | Scheduled st' \<Rightarrow> False | Returned st' \<Rightarrow> False"
    by (simp add: dip_samples_def stab_eval)
  from resolves_iff_lock_or_timeout [of "last shaky_samples" 0 stab_init dip_samples]
    ok tm res
  show ?thesis
    by (cases "run_checks 0 stab_init dip_samples") auto
qed

subsection \<open>The best frame\<close>

lemma checkMotion_best:
  assumes "checkMotion start st smp = Scheduled st' \<or> checkMotion start st smp = Resolved f st'"
  shows "(minFilteredMotion st', bestFrame st') =
           (if below_min (filteredMotion_at st smp) (minFilteredMotion st) \<or> bestFrame st = []
            then (Some (filteredMotion_at st smp), currentFrame smp)
            else (minFilteredMotion st, bestFrame st))"
  using assms
  by (auto simp: checkMotion_def Let_def split_beta filteredMotion_at_def split: if_splits)

lemma records_lowest_step:
  assumes "records_lowest st acc"
    and "currentFrame smp \<noteq> []"
    and "checkMotion start st smp = Scheduled st' \<or> checkMotion start st smp = Resolved f st'"
  shows "records_lowest st' (acc @ [(filteredMotion_at st smp, currentFrame smp)])"
proof (cases "acc = []")
  case True
  with assms(1) have "minFilteredMotion st = None" "bestFrame st = []"
    by (simp_all add: records_lowest_def)
  with checkMotion_best [OF assms(3)] have
    "minFilteredMotion st' = Some (filteredMotion_at st smp)" "bestFrame st' = currentFrame smp"
    by simp_all
  with True assms(2) show ?thesis by (simp add: records_lowest_def)
next
  case False
  with assms(1) obtain m where m: "bestFrame st \<noteq> []" "minFilteredMotion st = Some m"
    "(m, bestFrame st) \<in> set acc" "\<forall>e\<in>set acc. m \<le> fst e"
    by (auto simp: records_lowest_def)
  show ?thesis
  proof (cases "filteredMotion_at st smp < m")
    case True
    with checkMotion_best [OF assms(3)] m(2) have
      "minFilteredMotion st' = Some (filteredMotion_at st smp)" "bestFrame st' = currentFrame smp"
      by (simp_all add: below_min_def)
    with True m(4) assms(2) show ?thesis
      by (fastforce simp: records_lowest_def)
  next
    case nlt: False
    with checkMotion_best [OF assms(3)] m(1,2) have
      "minFilteredMotion st' = Some m" "bestFrame st' = bestFrame st"
      by (simp_all add: below_min_def)
    with nlt m show ?thesis
      by (auto simp: records_lowest_def)
  qed
qed

lemma run_checks_lowest:
  "run_checks start st smps = Resolved f st' \<Longrightarrow>
   \<forall>e\<in>set (candidate_trace start st smps). snd e \<noteq> [] \<Longrightarrow>
   records_lowest st acc \<Longrightarrow>
   f \<noteq> [] \<and>
   (\<exists>e\<in>set (acc @ candidate_trace start st smps). snd e = f \<and>
      (\<forall>e'\<in>set (acc @ candidate_trace start st smps). fst e \<le> fst e'))"
proof (induction smps arbitrary: st acc)
  case Nil
  then show ?case by simp
next
  case (Cons smp rest)
  let ?c = "(filteredMotion_at st smp, currentFrame smp)"
  show ?case
  proof (cases "checkMotion start st smp")
    case (Resolved g st1)
    with Cons.prems(1) have eq: "g = f" "st1 = st'" by simp_all
    from Cons.prems(2) Resolved have ne: "currentFrame smp \<noteq> []" by simp
    from records_lowest_step [OF Cons.prems(3) ne, of start st1 g] Resolved
    have rl: "records_lowest st1 (acc @ [?c])" by simp
    from checkMotion_Resolved [OF Resolved] have g: "g = bestFrame st1" by blast
    from rl obtain m where m: "bestFrame st1 \<noteq> []" "(m, bestFrame st1) \<in> set (acc @ [?c])"
      "\<forall>e\<in>set (acc @ [?c]). m \<le> fst e"
      by (auto simp: records_lowest_def)
    have tr: "candidate_trace start st (smp # rest) = [?c]" using Resolved by simp
    from m(2,3) have "\<exists>e\<in>set (acc @ [?c]). snd e = bestFrame st1 \<and>
        (\<forall>e'\<in>set (acc @ [?c]). fst e \<le> fst e')"
      by (intro bexI [of _ "(m, bestFrame st1)"]) simp_all
    with m(1) g eq show ?thesis unfolding tr by simp
  next
    case (Scheduled st1)
    from Cons.prems(2) Scheduled have ne: "currentFrame smp \<noteq> []"
      and all: "\<forall>e\<in>set (candidate_trace start st1 rest). snd e \<noteq> []" by simp_all
    from records_lowest_step [OF Cons.prems(3) ne, of start st1] Scheduled
    have rl: "records_lowest st1 (acc @ [?c])" by simp
    from Cons.prems(1) Scheduled have r: "run_checks start st1 rest = Resolved f st'" by simp
    from Cons.IH [OF r all rl] Scheduled show ?thesis by simp
  next
    case (Returned st1)
    with Cons.prems(1) show ?thesis by simp
  qed
qed

lemma run_checks_index:
  "run_checks start st smps = Resolved f st' \<Longrightarrow>
   \<exists>k<length smps.
     length (candidate_trace start st smps) = Suc k \<and>
     map snd (candidate_trace start st smps) = map currentFrame (take (Suc k) smps) \<and>
     run_checks start st (take (Suc k) smps) = Resolved f st' \<and>
     (\<forall>n\<le>k. \<exists>st''. run_checks start st (take n smps) = Scheduled st'')"
proof (induction smps arbitrary: st)
  case Nil
  then show ?case by simp
next
  case (Cons smp rest)
  show ?case
  proof (cases "checkMotion start st smp")
    case (Resolved g st1)
    with Cons.prems show ?thesis
      by (intro exI [of _ 0]) simp
  next
    case (Scheduled st1)
    with Cons.prems have r: "run_checks start st1 rest = Resolved f st'" by simp
    from Cons.IH [OF r] obtain k where k: "k < length rest"
      "length (candidate_trace start st1 rest) = Suc k"
      "map snd (candidate_trace start st1 rest) = map currentFrame (take (Suc k) rest)"
      "run_checks start st1 (take (Suc k) rest) = Resolved f st'"
      "\<forall>n\<le>k. \<exists>st''. run_checks start st1 (take n rest) = Scheduled st''" by blast
    have pend: "\<exists>st''. run_checks start st (take n (smp # rest)) = Scheduled st''"
      if "n \<le> Suc k" for n
    proof (cases n)
      case 0
      then show ?thesis by simp
    next
      case (Suc n')
      with that k(5) Scheduled show ?thesis by simp
    qed
    from k(1-4) Scheduled pend show ?thesis
      by (intro exI [of _ "Suc k"]) simp
  next
    case (Returned st1)
    with Cons.prems show ?thesis by simp
  qed
qed


lemma run_checks_frame:
  "run_checks start st smps = Resolved f st' \<Longrightarrow>
   f \<in> snd ` set (candidate_trace start st smps) \<or> f = bestFrame st \<and> bestFrame st \<noteq> []"
proof (induction smps arbitrary: st)
  case Nil
  then show ?case by simp
next
  case (Cons smp rest)
  show ?case
  proof (cases "checkMotion start st smp")
    case (Resolved g st1)
    with checkMotion_Resolved [OF Resolved] Cons.prems show ?thesis by auto
  next
    case (Scheduled st1)
    with Cons.prems have r: "run_checks start st1 rest = Resolved f st'" by simp
    from checkMotion_Scheduled [OF Scheduled]
    have bf: "bestFrame st1 = currentFrame smp \<or> bestFrame st1 = bestFrame st \<and> bestFrame st \<noteq> []"
      by blast
    from Cons.IH [OF r] bf Scheduled show ?thesis by auto
  next
    case (Returned st1)
    with Cons.prems show ?thesis by simp
  qed
qed

text \<open>
  Claim C3, as stated: every attempt in which a sample is processed resolves with a
  non-empty frame. It fails in two ways. On a video without dimensions every sample
  passes the guard and encodes to the empty string, and the attempt resolves with the
  empty string, by the timeout (\<open>blank_timeout_samples\<close>) as well as by the lock
  (\<open>blank_lock_samples\<close>). And when the guard fails at the second call, after the
  first sample has been processed, nothing is scheduled any more and the promise stays
  pending, whatever samples would follow (\<open>lost_ref_samples\<close>).
\<close>

theorem empty_frame_or_pending_counterexample:
  "map refs_ok blank_timeout_samples = [True, True] \<and>
   getStabilizedFrame 0 blank_timeout_samples = Some [] \<and>
   map refs_ok blank_lock_samples = [True, True] \<and>
   getStabilizedFrame 0 blank_lock_samples = Some [] \<and>
   map refs_ok lost_ref_samples = [True, False, True] \<and>
   map snd (candidate_trace 0 stab_init lost_ref_samples) = [''a''] \<and>
   getStabilizedFrame 0 lost_ref_samples = None"
proof -
  have a: "getStabilizedFrame 0 blank_timeout_samples = Some []"
    by (simp add: getStabilizedFrame_def blank_timeout_samples_def stab_eval)
  have b: "getStabilizedFrame 0 blank_lock_samples = Some []"
    by (simp add: getStabilizedFrame_def blank_lock_samples_def stab_eval)
  have c: "getStabilizedFrame 0 lost_ref_samples = None"
    by (simp add: getStabilizedFrame_def lost_ref_samples_def stab_eval)
  have d: "map snd (candidate_trace 0 stab_init lost_ref_samples) = [''a'']"
    by (simp add: lost_ref_samples_def stab_eval)
  from a b c d show ?thesis
    by (simp add: blank_timeout_samples_def blank_lock_samples_def lost_ref_samples_def)
qed

text \<open>
  Claim C3, amended. Let every sample of an attempt pass the guard (the video, the
  canvases and their contexts are there at every call), and let the samples go on until
  the clock has passed the maximum duration. Then \<open>getStabilizedFrame\<close> resolves,
  whatever the motion between the samples: there is a sample, number \<open>k\<close>, at which
  it resolves, the promise being pending after any fewer samples, and its value is the
  encoded frame of one of the samples up to that one, never the empty string the
  attempt starts with. When the encoded frames of these samples are non-empty (the
  video has dimensions), the value is non-empty and is the best candidate: the frame of
  one of these samples whose filtered motion none of them is below. The first call
  records the first sample's frame, with its filtered motion 0 as the running minimum;
  every call replaces the recorded frame by its own exactly when its filtered motion is
  below the recorded minimum or the recorded frame is empty, and a call that resolves
  does so with the recorded frame.
\<close>

theorem getStabilizedFrame_resolves_with_best_candidate:
  assumes "\<forall>smp\<in>set smps. refs_ok smp"
    and "\<exists>smp\<in>set smps. MAX_DURATION \<le> now smp - start"
  shows "(\<exists>f k. k < length smps \<and>
            getStabilizedFrame start smps = Some f \<and>
            getStabilizedFrame start (take (Suc k) smps) = Some f \<and>
            (\<forall>n\<le>k. getStabilizedFrame start (take n smps) = None) \<and>
            map snd (candidate_trace start stab_init smps) = map currentFrame (take (Suc k) smps) \<and>
            f \<in> snd ` set (candidate_trace start stab_init smps) \<and>
            ((\<forall>e\<in>set (candidate_trace start stab_init smps). snd e \<noteq> []) \<longrightarrow>
               f \<noteq> [] \<and>
               (\<exists>e\<in>set (candidate_trace start stab_init smps). snd e = f \<and>
                  (\<forall>e'\<in>set (candidate_trace start stab_init smps). fst e \<le> fst e')))) \<and>
         (case checkMotion start stab_init (hd smps) of
            Resolved f st' \<Rightarrow> f = currentFrame (hd smps)
          | Scheduled st' \<Rightarrow>
              bestFrame st' = currentFrame (hd smps) \<and> minFilteredMotion st' = Some 0
          | Returned st' \<Rightarrow> False) \<and>
         (\<forall>st' g. checkMotion start st smp = Scheduled st' \<or>
                  checkMotion start st smp = Resolved g st' \<longrightarrow>
            (minFilteredMotion st', bestFrame st') =
              (if below_min (filteredMotion_at st smp) (minFilteredMotion st) \<or> bestFrame st = []
               then (Some (filteredMotion_at st smp), currentFrame smp)
               else (minFilteredMotion st, bestFrame st)) \<and>
            (checkMotion start st smp = Resolved g st' \<longrightarrow> g = bestFrame st'))"
proof -
  from run_checks_resolves [OF assms, of stab_init] obtain f st' where
    r: "run_checks start stab_init smps = Resolved f st'" by blast
  from run_checks_index [OF r] obtain k where k: "k < length smps"
    "map snd (candidate_trace start stab_init smps) = map currentFrame (take (Suc k) smps)"
    "run_checks start stab_init (take (Suc k) smps) = Resolved f st'"
    "\<forall>n\<le>k. \<exists>st''. run_checks start stab_init (take n smps) = Scheduled st''" by blast
  have res: "getStabilizedFrame start smps = Some f"
    using r by (simp add: getStabilizedFrame_def)
  have pre: "getStabilizedFrame start (take (Suc k) smps) = Some f"
    using k(3) by (simp add: getStabilizedFrame_def)
  have pend: "\<forall>n\<le>k. getStabilizedFrame start (take n smps) = None"
  proof (intro allI impI)
    fix n assume "n \<le> k"
    with k(4) obtain st'' where "run_checks start stab_init (take n smps) = Scheduled st''"
      by blast
    then show "getStabilizedFrame start (take n smps) = None"
      by (simp add: getStabilizedFrame_def)
  qed
  from run_checks_frame [OF r]
  have mem: "f \<in> snd ` set (candidate_trace start stab_init smps)"
    by (auto simp: stab_init_def)
  have init: "records_lowest stab_init []"
    by (simp add: records_lowest_def stab_init_def)
  have low: "(\<forall>e\<in>set (candidate_trace start stab_init smps). snd e \<noteq> []) \<longrightarrow>
               f \<noteq> [] \<and>
               (\<exists>e\<in>set (candidate_trace start stab_init smps). snd e = f \<and>
                  (\<forall>e'\<in>set (candidate_trace start stab_init smps). fst e \<le> fst e'))"
  proof
    assume ne: "\<forall>e\<in>set (candidate_trace start stab_init smps). snd e \<noteq> []"
    from run_checks_lowest [OF r ne init]
    show "f \<noteq> [] \<and>
               (\<exists>e\<in>set (candidate_trace start stab_init smps). snd e = f \<and>
                  (\<forall>e'\<in>set (candidate_trace start stab_init smps). fst e \<le> fst e'))"
      by simp
  qed
  have a: "\<exists>f k. k < length smps \<and>
            getStabilizedFrame start smps = Some f \<and>
            getStabilizedFrame start (take (Suc k) smps) = Some f \<and>
            (\<forall>n\<le>k. getStabilizedFrame start (take n smps) = None) \<and>
            map snd (candidate_trace start stab_init smps) = map currentFrame (take (Suc k) smps) \<and>
            f \<in> snd ` set (candidate_trace start stab_init smps) \<and>
            ((\<forall>e\<in>set (candidate_trace start stab_init smps). snd e \<noteq> []) \<longrightarrow>
               f \<noteq> [] \<and>
               (\<exists>e\<in>set (candidate_trace start stab_init smps). snd e = f \<and>
                  (\<forall>e'\<in>set (candidate_trace start stab_init smps). fst e \<le> fst e')))"
    using k(1,2) res pre pend mem low by blast
  from assms(2) have "smps \<noteq> []" by auto
  with assms(1) have "refs_ok (hd smps)" by simp
  then have b: "case checkMotion start stab_init (hd smps) of
            Resolved f st' \<Rightarrow> f = currentFrame (hd smps)
          | Scheduled st' \<Rightarrow>
              bestFrame st' = currentFrame (hd smps) \<and> minFilteredMotion st' = Some 0
          | Returned st' \<Rightarrow> False"
    by (simp add: stab_init_def checkMotion_def rawMotionScore_None kf_filter_def
          KalmanFilter_new_def Let_def below_min_def)
  have c: "\<forall>st' g. checkMotion start st smp = Scheduled st' \<or>
                  checkMotion start st smp = Resolved g st' \<longrightarrow>
            (minFilteredMotion st', bestFrame st') =
              (if below_min (filteredMotion_at st smp) (minFilteredMotion st) \<or> bestFrame st = []
               then (Some (filteredMotion_at st smp), currentFrame smp)
               else (minFilteredMotion st, bestFrame st)) \<and>
            (checkMotion start st smp = Resolved g st' \<longrightarrow> g = bestFrame st')"
    using checkMotion_best [of start st smp] checkMotion_Resolved [of start st smp]
    by blast
  from a b c show ?thesis by blast
qed

theorem getStabilizedFrame_resolves_with_best_candidate_witness:
  "getStabilizedFrame 0 shaky_samples \<noteq> None \<and>
   getStabilizedFrame 0 shaky_samples \<noteq> Some [] \<and>
   getStabilizedFrame 0 [] = None \<and>
   map snd (candidate_trace 0 stab_init shaky_samples) = [''a'', ''b''] \<and>
   rawMotionScore (Some (flat_frame 0)) (flat_frame 255) = 1024 * 255"
proof -
  have h1: "\<forall>smp\<in>set shaky_samples. refs_ok smp"
    by (simp add: shaky_samples_def)
  have h2: "\<exists>smp\<in>set shaky_samples. MAX_DURATION \<le> now smp - 0"
    by (simp add: shaky_samples_def)
  have tr: "map snd (candidate_trace 0 stab_init shaky_samples) = [''a'', ''b'']"
    by (simp add: shaky_samples_def stab_eval)
  then have h3: "\<forall>e\<in>set (candidate_trace 0 stab_init shaky_samples). snd e \<noteq> []"
    by (auto simp: map_eq_Cons_conv)
  from getStabilizedFrame_resolves_with_best_candidate [OF h1 h2] obtain f k where
    fk: "getStabilizedFrame 0 shaky_samples = Some f"
      "\<forall>n\<le>k. getStabilizedFrame 0 (take n shaky_samples) = None"
      "(\<forall>e\<in>set (candidate_trace 0 stab_init shaky_samples). snd e \<noteq> []) \<longrightarrow> f \<noteq> []"
    by blast
  from fk(2) have "getStabilizedFrame 0 (take 0 shaky_samples) = None" by blast
  then have e: "getStabilizedFrame 0 [] = None" by simp
  from fk(1,3) h3 e tr show ?thesis by (simp add: rawMotionScore_flat)
qed

section \<open>The local fallback and its label\<close>

lemma remote_path_exhausted:
  assumes "\<forall>i\<le>2. isl (describeImage env img mode i)"
  shows "isl (remote_path env img mode)"
proof -
  have "isl (describeImage env img mode i)" if "i \<le> 0 + nat (2 - 0)" for i
    using that assms by simp
  from retry_loop_exhaust [of 0 2 0 "describeImage env img mode" 1000 0, OF this]
  show ?thesis
    by (simp add: remote_path_def retryTask_def)
qed

text \<open>
  Claim C7. For a capture request in the mode summarize or explain whose result comes
  from the local engine (\<open>performOfflineOCR\<close> returns the text), either because the
  device is offline or because it is online and the remote path has thrown (for one,
  when \<open>describeImage\<close> has failed on all three attempts of \<open>retryTask\<close>), the text
  displayed is the local text behind a label: "Offline Mode: Only basic reading is
  available. Text found: " when offline, "(Offline Fallback) " when online. It is never
  the bare local text, and what is spoken is the local text.
\<close>

theorem local_fallback_is_labelled:
  assumes "mode \<noteq> Read"
    and "refs_present env" and "\<not> ui_isProcessing ui" and "\<not> ui_isStabilizing ui"
    and "getStabilizedFrame (startTime env) (samples env) = Some img"
    and "recognize env img = Inr raw"
    and "\<not> isOnline env \<or> isl (remote_path env img mode) \<or>
         (\<forall>i\<le>2. isl (describeImage env img mode i))"
  shows "\<exists>ui'. captureAndAnalyze env mode ui = Some ui' \<and>
           (let offlineText =
                  (if trim raw \<noteq> [] then trim raw else ''No clear text found in the image.'')
            in performOfflineOCR env img = Inr offlineText \<and>
               ui_resultText ui' =
                 (if isOnline env then ''(Offline Fallback) ''
                  else ''Offline Mode: Only basic reading is available. Text found: '')
                 @ offlineText \<and>
               ui_resultText ui' \<noteq> offlineText \<and>
               ui_spoken ui' = ui_spoken ui @ [LocalSpeech offlineText])"
proof (cases "isOnline env")
  case True
  with assms(7) remote_path_exhausted [of env img mode]
  obtain apiError where "remote_path env img mode = Inl apiError"
    by (cases "remote_path env img mode") auto
  with True assms(1-6) show ?thesis
    by (simp add: captureAndAnalyze_def performOfflineOCR_def Let_def)
next
  case False
  with assms(1-6) show ?thesis
    by (simp add: captureAndAnalyze_def performOfflineOCR_def Let_def)
qed


theorem local_fallback_is_labelled_witness:
  "captureAndAnalyze failing_remote_env Summarize
     \<lparr>ui_isProcessing = False, ui_isStabilizing = False, ui_stabilityLevel = 0,
      ui_resultText = [], ui_spoken = []\<rparr> =
   Some \<lparr>ui_isProcessing = False, ui_isStabilizing = False, ui_stabilityLevel = 0,
         ui_resultText = ''(Offline Fallback) STOP'', ui_spoken = [LocalSpeech ''STOP'']\<rparr>"
proof -
  let ?ui = "\<lparr>ui_isProcessing = False, ui_isStabilizing = False, ui_stabilityLevel = 0,
      ui_resultText = [], ui_spoken = []\<rparr>"
  have h1: "Summarize \<noteq> Read" by simp
  have h2: "refs_present failing_remote_env" by (simp add: failing_remote_env_def)
  have h3: "\<not> ui_isProcessing ?ui" and h4: "\<not> ui_isStabilizing ?ui" by simp_all
  have h5: "getStabilizedFrame (startTime failing_remote_env) (samples failing_remote_env) =
              Some ''img''"
    by (simp add: failing_remote_env_def getStabilizedFrame_def stab_eval)
  have h6: "recognize failing_remote_env ''img'' = Inr ''  STOP  ''"
    by (simp add: failing_remote_env_def)
  have h7: "\<not> isOnline failing_remote_env \<or> isl (remote_path failing_remote_env ''img'' Summarize) \<or>
         (\<forall>i\<le>2. isl (describeImage failing_remote_env ''img'' Summarize i))"
    by (simp add: failing_remote_env_def)
  have tr: "trim ''  STOP  '' = ''STOP''"
    by (simp add: trim_def is_space_def)
  from local_fallback_is_labelled [OF h1 h2 h3 h4 h5 h6 h7] obtain ui' where
    ui': "captureAndAnalyze failing_remote_env Summarize ?ui = Some ui'"
      "ui_resultText ui' = ''(Offline Fallback) STOP''"
      "ui_spoken ui' = [LocalSpeech ''STOP'']"
    unfolding tr Let_def by (auto simp: failing_remote_env_def)
  have fl: "ui_isProcessing ui' = False \<and> ui_isStabilizing ui' = False \<and> ui_stabilityLevel ui' = 0"
    using ui'(1) h2 h5
    by (auto simp: captureAndAnalyze_def Let_def split_beta split: if_splits)
  with ui' show ?thesis by simp
qed

section \<open>Playback scheduling, interruption and the transcript\<close>

lemma turnComplete_playback_fields:
  "nodes (handle_turnComplete cl env st) = nodes st"
  "nextStartTime (handle_turnComplete cl env st) = nextStartTime st"
  "sources (handle_turnComplete cl env st) = sources st"
  by (simp_all add: handle_turnComplete_def)

lemma onmessage_chunk:
  assumes "playback_event (Message env (Some sc))"
  shows "\<exists>t. ctx_currentTime env = Some t \<and>
           nodes (onmessage cl env (Some sc) st) =
             nodes st @ [\<lparr>buffer_duration = decoded_duration env, playbackRate = cl_speechRate cl,
                          start_when = max (nextStartTime st) t, stopped = False\<rparr>] \<and>
           nextStartTime (onmessage cl env (Some sc) st) =
             max (nextStartTime st) t + decoded_duration env / cl_speechRate cl \<and>
           sources (onmessage cl env (Some sc) st) = insert (length (nodes st)) (sources st)"
  using assms
  by (auto simp: onmessage_def handle_audio_def handle_transcriptions_def schedule_chunk_def
           Let_def turnComplete_playback_fields split: option.splits)

lemma on_ended_playback_fields:
  "nodes (on_ended i st) = nodes st"
  "nextStartTime (on_ended i st) = nextStartTime st"
  by (simp_all add: on_ended_def)

lemma playback_step:
  assumes "playback_event e" and "0 < cl_speechRate cl"
  shows "\<exists>new. nodes (handle_event cl e st) = nodes st @ new \<and>
           length new = (if is_message e then 1 else 0) \<and>
           (\<forall>n\<in>set new. nextStartTime st \<le> start_when n \<and>
                          node_end n = nextStartTime (handle_event cl e st) \<and>
                          playbackRate n = cl_speechRate cl \<and> 0 \<le> buffer_duration n) \<and>
           nextStartTime st \<le> nextStartTime (handle_event cl e st) \<and>
           (new = [] \<longrightarrow> nextStartTime (handle_event cl e st) = nextStartTime st)"
proof (cases e)
  case (Ended i)
  then show ?thesis by (simp add: on_ended_playback_fields)
next
  case (Message env msg)
  with assms(1) obtain sc where msg: "msg = Some sc" by (cases msg) auto
  from assms(1) have d: "0 \<le> decoded_duration env"
    unfolding Message msg by (auto split: option.splits)
  then have q: "0 \<le> decoded_duration env / cl_speechRate cl"
    using assms(2) by simp
  from onmessage_chunk [of env sc cl st] assms(1) obtain t where
    t: "ctx_currentTime env = Some t"
    "nodes (onmessage cl env (Some sc) st) =
       nodes st @ [\<lparr>buffer_duration = decoded_duration env, playbackRate = cl_speechRate cl,
                    start_when = max (nextStartTime st) t, stopped = False\<rparr>]"
    "nextStartTime (onmessage cl env (Some sc) st) =
       max (nextStartTime st) t + decoded_duration env / cl_speechRate cl"
    unfolding Message msg by blast
  show ?thesis
    unfolding Message msg using t(2,3) q d by (simp add: node_end_def)
qed

lemma playback_run:
  assumes "0 < cl_speechRate cl"
  shows "\<forall>e\<in>set evs. playback_event e \<Longrightarrow>
         \<exists>new. nodes (run_session cl evs st) = nodes st @ new \<and>
           length new = length (filter is_message evs) \<and>
           sorted_wrt ends_before new \<and>
           (\<forall>n\<in>set new. nextStartTime st \<le> start_when n \<and>
                          node_end n \<le> nextStartTime (run_session cl evs st) \<and>
                          playbackRate n = cl_speechRate cl \<and> 0 \<le> buffer_duration n) \<and>
           nextStartTime st \<le> nextStartTime (run_session cl evs st) \<and>
           nextStartTime (run_session cl evs st) =
             (if new = [] then nextStartTime st else node_end (last new))"
proof (induction evs arbitrary: st)
  case Nil
  show ?case by simp
next
  case (Cons e es)
  let ?st1 = "handle_event cl e st"
  let ?st2 = "run_session cl es ?st1"
  from Cons.prems have e: "playback_event e" and es: "\<forall>e\<in>set es. playback_event e" by simp_all
  from playback_step [OF e assms, of st] obtain new1 where
    n1: "nodes ?st1 = nodes st @ new1" "length new1 = (if is_message e then 1 else 0)"
        "\<forall>n\<in>set new1. nextStartTime st \<le> start_when n \<and> node_end n = nextStartTime ?st1 \<and>
                        playbackRate n = cl_speechRate cl \<and> 0 \<le> buffer_duration n"
        "nextStartTime st \<le> nextStartTime ?st1"
        "new1 = [] \<longrightarrow> nextStartTime ?st1 = nextStartTime st" by blast
  from Cons.IH [OF es, of ?st1] obtain new2 where
    n2: "nodes ?st2 = nodes ?st1 @ new2" "length new2 = length (filter is_message es)"
        "sorted_wrt ends_before new2"
        "\<forall>n\<in>set new2. nextStartTime ?st1 \<le> start_when n \<and> node_end n \<le> nextStartTime ?st2 \<and>
                        playbackRate n = cl_speechRate cl \<and> 0 \<le> buffer_duration n"
        "nextStartTime ?st1 \<le> nextStartTime ?st2"
        "nextStartTime ?st2 = (if new2 = [] then nextStartTime ?st1 else node_end (last new2))"
    by blast
  have s1: "sorted_wrt ends_before new1"
    using n1(2) by (cases new1) (auto split: if_splits)
  have cross: "\<forall>a\<in>set new1. \<forall>b\<in>set new2. ends_before a b"
    using n1(3) n2(4) by (auto simp: ends_before_def)
  have srt: "sorted_wrt ends_before (new1 @ new2)"
    using s1 n2(3) cross by (simp add: sorted_wrt_append)
  have bnd: "\<forall>n\<in>set (new1 @ new2). nextStartTime st \<le> start_when n \<and>
                 node_end n \<le> nextStartTime ?st2 \<and>
                 playbackRate n = cl_speechRate cl \<and> 0 \<le> buffer_duration n"
    using n1(3,4) n2(4,5) by fastforce
  have one: "new1 \<noteq> [] \<Longrightarrow> node_end (last new1) = nextStartTime ?st1"
    using n1(3) by simp
  have lst: "nextStartTime ?st2 =
               (if new1 @ new2 = [] then nextStartTime st else node_end (last (new1 @ new2)))"
    using n2(6) n1(5) one by (cases "new2 = []"; cases "new1 = []") simp_all
  have len: "length (new1 @ new2) = length (filter is_message (e # es))"
    using n1(2) n2(2) by simp
  have nd: "nodes ?st2 = nodes st @ (new1 @ new2)"
    using n1(1) n2(1) by simp
  have mono: "nextStartTime st \<le> nextStartTime ?st2"
    using n1(4) n2(5) by simp
  from nd len srt bnd mono lst show ?case
    unfolding run_session.simps by blast
qed

lemma ends_before_starts:
  assumes "sorted_wrt ends_before new"
    and "\<forall>n\<in>set new. 0 \<le> buffer_duration n / playbackRate n"
  shows "sorted_wrt (\<lambda>a b. start_when a \<le> start_when b) new"
proof (rule sorted_wrt_mono_rel [OF _ assms(1)])
  fix a b
  assume "a \<in> set new" "b \<in> set new" "ends_before a b"
  with assms(2) show "start_when a \<le> start_when b"
    by (fastforce simp: ends_before_def node_end_def)
qed


lemma run_session_append:
  "run_session cl (xs @ ys) st = run_session cl ys (run_session cl xs st)"
  by (induction xs arbitrary: st) simp_all

lemma pre_interrupt:
  assumes "sources st \<subseteq> {..<length (nodes st)}"
  shows "sources st \<subseteq> sources (handle_audio cl env sc (handle_transcriptions sc st)) \<and>
         sources (handle_audio cl env sc (handle_transcriptions sc st))
           \<subseteq> {..<length (nodes (handle_audio cl env sc (handle_transcriptions sc st)))} \<and>
         length (nodes st) \<le> length (nodes (handle_audio cl env sc (handle_transcriptions sc st)))"
  using assms
  by (auto simp: handle_audio_def handle_transcriptions_def schedule_chunk_def Let_def
           split: option.splits)

lemma handle_interrupted_props:
  assumes "sources st \<subseteq> {..<length (nodes st)}"
  shows "sources (handle_interrupted st) = {}"
    and "nextStartTime (handle_interrupted st) = 0"
    and "length (nodes (handle_interrupted st)) = length (nodes st)"
    and "\<forall>i\<in>sources st. stopped (nodes (handle_interrupted st) ! i)"
  using assms
  by (auto simp: handle_interrupted_def stop_node_def nth_enumerate_eq)

lemma onmessage_interrupted:
  assumes "sources st \<subseteq> {..<length (nodes st)}" and "interrupted sc"
  shows "sources (onmessage cl env (Some sc) st) = {} \<and>
         nextStartTime (onmessage cl env (Some sc) st) = 0 \<and>
         length (nodes st) \<le> length (nodes (onmessage cl env (Some sc) st)) \<and>
         (\<forall>i\<in>sources st. stopped (nodes (onmessage cl env (Some sc) st) ! i))"
proof -
  let ?st3 = "handle_audio cl env sc (handle_transcriptions sc st)"
  from pre_interrupt [OF assms(1), of cl env sc]
  have st3: "sources st \<subseteq> sources ?st3" "sources ?st3 \<subseteq> {..<length (nodes ?st3)}"
    "length (nodes st) \<le> length (nodes ?st3)" by blast+
  from handle_interrupted_props [OF st3(2)] st3(1,3) assms(2) show ?thesis
    by (auto simp: onmessage_def Let_def turnComplete_playback_fields)
qed

lemma handle_event_live:
  assumes "sources st \<subseteq> {..<length (nodes st)}"
  shows "sources (handle_event cl e st) \<subseteq> {..<length (nodes (handle_event cl e st))}"
proof (cases e)
  case (Ended i)
  with assms show ?thesis by (auto simp: on_ended_def)
next
  case (Message env msg)
  show ?thesis
  proof (cases msg)
    case None
    with Message assms show ?thesis by (simp add: onmessage_def)
  next
    case (Some sc)
    let ?st3 = "handle_audio cl env sc (handle_transcriptions sc st)"
    from pre_interrupt [OF assms, of cl env sc]
    have st3: "sources ?st3 \<subseteq> {..<length (nodes ?st3)}" by blast
    from handle_interrupted_props(1,3) [OF st3] st3 show ?thesis
      unfolding Message Some handle_event.simps
      by (auto simp: onmessage_def Let_def turnComplete_playback_fields)
  qed
qed

lemma run_session_live:
  "sources st \<subseteq> {..<length (nodes st)} \<Longrightarrow>
   sources (run_session cl evs st) \<subseteq> {..<length (nodes (run_session cl evs st))}"
  by (induction evs arbitrary: st) (simp_all add: handle_event_live)

lemma chunk_after_reset:
  assumes "nextStartTime st = 0" and "base64Audio \<noteq> []" and "ctx_currentTime env = Some t"
  shows "nodes (onmessage cl env (msg_audio base64Audio) st) =
           nodes st @ [\<lparr>buffer_duration = decoded_duration env, playbackRate = cl_speechRate cl,
                        start_when = max 0 t, stopped = False\<rparr>] \<and>
         sources (onmessage cl env (msg_audio base64Audio) st) =
           insert (length (nodes st)) (sources st)"
  using assms
  by (simp add: onmessage_def handle_audio_def handle_transcriptions_def msg_audio_def
        no_content_def schedule_chunk_def Let_def)

lemma turnComplete_transcript:
  "transcript (onmessage cl env msg_turnComplete st) =
     filter (\<lambda>t. trim (text t) \<noteq> [])
       (transcript st @
        [\<lparr>text = cl_currentInput cl, timestamp = date_now1 env, speaker = User\<rparr>,
         \<lparr>text = cl_currentOutput cl, timestamp = date_now2 env, speaker = Model\<rparr>])"
  by (simp add: onmessage_def handle_audio_def handle_transcriptions_def msg_turnComplete_def
        no_content_def handle_turnComplete_def Let_def)


lemma playback_prefix_mono:
  assumes "0 < cl_speechRate cl" and "\<forall>e\<in>set evs. playback_event e" and "k < length evs"
  shows "nextStartTime (run_session cl (take k evs) st)
           \<le> nextStartTime (run_session cl (take (Suc k) evs) st)"
proof -
  have ev: "playback_event (evs ! k)" using assms(2,3) by simp
  have "run_session cl (take (Suc k) evs) st =
          handle_event cl (evs ! k) (run_session cl (take k evs) st)"
    using assms(3) by (simp add: take_Suc_conv_app_nth run_session_append)
  with playback_step [OF ev assms(1), of "run_session cl (take k evs) st"]
  show ?thesis by auto
qed

lemmas hearing_eval =
  onmessage_def handle_transcriptions_def handle_audio_def schedule_chunk_def
  handle_interrupted_def handle_turnComplete_def stop_node_def
  msg_input_def msg_output_def msg_audio_def msg_interrupted_def msg_turnComplete_def
  no_content_def hearing_init_def Let_def

text \<open>
  Claim C4. Take any sequence of audio chunks (messages with non-empty audio and no
  interruption, durations not negative, arriving at any readings of the output clock,
  possibly with ends of earlier sources in between), a playback rate above 0, and any
  state to start from. One source is scheduled for each chunk, in order. Each chunk
  starts at the larger of the cursor and the clock. A source ends (start plus duration
  over rate) no later than any later one starts, and the start times do not decrease.
  No source starts before the cursor the sequence began with. The cursor never goes
  down from one event to the next, and after the sequence it is the end of the last
  source scheduled.
\<close>

theorem chunks_scheduled_without_overlap:
  assumes "0 < cl_speechRate cl"
    and "\<forall>e\<in>set evs. playback_event e"
  shows "(\<exists>new. nodes (run_session cl evs st) = nodes st @ new \<and>
            length new = length (filter is_message evs) \<and>
            sorted_wrt (\<lambda>a b. start_when a \<le> start_when b) new \<and>
            sorted_wrt (\<lambda>a b. start_when a + buffer_duration a / cl_speechRate cl \<le> start_when b)
              new \<and>
            (\<forall>n\<in>set new. nextStartTime st \<le> start_when n \<and>
                           playbackRate n = cl_speechRate cl) \<and>
            nextStartTime (run_session cl evs st) =
              (if new = [] then nextStartTime st
               else start_when (last new) + buffer_duration (last new) / cl_speechRate cl)) \<and>
         (\<forall>k<length evs. nextStartTime (run_session cl (take k evs) st)
                            \<le> nextStartTime (run_session cl (take (Suc k) evs) st)) \<and>
         (\<forall>env sc. playback_event (Message env (Some sc)) \<longrightarrow>
            (\<exists>t. ctx_currentTime env = Some t \<and>
                 start_when (last (nodes (onmessage cl env (Some sc) st))) =
                   max (nextStartTime st) t \<and>
                 nextStartTime (onmessage cl env (Some sc) st) =
                   max (nextStartTime st) t + decoded_duration env / cl_speechRate cl))"
proof -
  from playback_run [OF assms, of st] obtain new where
    new: "nodes (run_session cl evs st) = nodes st @ new"
      "length new = length (filter is_message evs)"
      "sorted_wrt ends_before new"
      "\<forall>n\<in>set new. nextStartTime st \<le> start_when n \<and>
                     node_end n \<le> nextStartTime (run_session cl evs st) \<and>
                     playbackRate n = cl_speechRate cl \<and> 0 \<le> buffer_duration n"
      "nextStartTime (run_session cl evs st) =
         (if new = [] then nextStartTime st else node_end (last new))"
    by blast
  have nn: "\<forall>n\<in>set new. 0 \<le> buffer_duration n / playbackRate n"
    using new(4) assms(1) by simp
  have s1: "sorted_wrt (\<lambda>a b. start_when a \<le> start_when b) new"
    by (rule ends_before_starts [OF new(3) nn])
  have s2: "sorted_wrt (\<lambda>a b. start_when a + buffer_duration a / cl_speechRate cl \<le> start_when b)
              new"
  proof (rule sorted_wrt_mono_rel [OF _ new(3)])
    fix a b
    assume "a \<in> set new" "b \<in> set new" "ends_before a b"
    with new(4) show "start_when a + buffer_duration a / cl_speechRate cl \<le> start_when b"
      by (simp add: ends_before_def node_end_def)
  qed
  have lastrate: "new \<noteq> [] \<Longrightarrow> node_end (last new) =
      start_when (last new) + buffer_duration (last new) / cl_speechRate cl"
    using new(4) by (simp add: node_end_def)
  have c1: "\<exists>new. nodes (run_session cl evs st) = nodes st @ new \<and>
            length new = length (filter is_message evs) \<and>
            sorted_wrt (\<lambda>a b. start_when a \<le> start_when b) new \<and>
            sorted_wrt (\<lambda>a b. start_when a + buffer_duration a / cl_speechRate cl \<le> start_when b)
              new \<and>
            (\<forall>n\<in>set new. nextStartTime st \<le> start_when n \<and>
                           playbackRate n = cl_speechRate cl) \<and>
            nextStartTime (run_session cl evs st) =
              (if new = [] then nextStartTime st
               else start_when (last new) + buffer_duration (last new) / cl_speechRate cl)"
    using new(1,2,4,5) s1 s2 lastrate by (intro exI [of _ new]) auto
  have c2: "\<forall>k<length evs. nextStartTime (run_session cl (take k evs) st)
                            \<le> nextStartTime (run_session cl (take (Suc k) evs) st)"
    using playback_prefix_mono [OF assms] by blast
  have c3: "\<forall>env sc. playback_event (Message env (Some sc)) \<longrightarrow>
            (\<exists>t. ctx_currentTime env = Some t \<and>
                 start_when (last (nodes (onmessage cl env (Some sc) st))) =
                   max (nextStartTime st) t \<and>
                 nextStartTime (onmessage cl env (Some sc) st) =
                   max (nextStartTime st) t + decoded_duration env / cl_speechRate cl)"
  proof (intro allI impI)
    fix env sc
    assume "playback_event (Message env (Some sc))"
    from onmessage_chunk [OF this, of cl st] show
      "\<exists>t. ctx_currentTime env = Some t \<and>
           start_when (last (nodes (onmessage cl env (Some sc) st))) = max (nextStartTime st) t \<and>
           nextStartTime (onmessage cl env (Some sc) st) =
             max (nextStartTime st) t + decoded_duration env / cl_speechRate cl"
      by auto
  qed
  from c1 c2 c3 show ?thesis by blast
qed

theorem chunks_scheduled_without_overlap_witness:
  "map start_when
     (nodes (run_session fast_session [chunk_at 0 1, chunk_at (1 / 4) 2, Ended 0, chunk_at 10 1]
        hearing_init)) = [0, 1 / 2, 10] \<and>
   sorted_wrt (\<lambda>a b. start_when a + buffer_duration a / cl_speechRate fast_session \<le> start_when b)
     (nodes (run_session fast_session [chunk_at 0 1, chunk_at (1 / 4) 2, Ended 0, chunk_at 10 1]
        hearing_init)) \<and>
   nextStartTime (run_session fast_session [chunk_at 0 1, chunk_at (1 / 4) 2, Ended 0, chunk_at 10 1]
        hearing_init) = 21 / 2"
proof -
  let ?evs = "[chunk_at 0 1, chunk_at (1 / 4) 2, Ended 0, chunk_at 10 1]"
  have h1: "0 < cl_speechRate fast_session" by (simp add: fast_session_def)
  have h2: "\<forall>e\<in>set ?evs. playback_event e"
    by (simp add: chunk_at_def env_at_def msg_audio_def no_content_def)
  have ev: "nodes (run_session fast_session ?evs hearing_init) =
     [\<lparr>buffer_duration = 1, playbackRate = 2, start_when = 0, stopped = False\<rparr>,
      \<lparr>buffer_duration = 2, playbackRate = 2, start_when = 1 / 2, stopped = False\<rparr>,
      \<lparr>buffer_duration = 1, playbackRate = 2, start_when = 10, stopped = False\<rparr>]"
    by (simp add: chunk_at_def env_at_def fast_session_def on_ended_def hearing_eval)
  have cur: "nextStartTime (run_session fast_session ?evs hearing_init) = 21 / 2"
    by (simp add: chunk_at_def env_at_def fast_session_def on_ended_def hearing_eval)
  from chunks_scheduled_without_overlap [OF h1 h2, of hearing_init] obtain new where
    "nodes (run_session fast_session ?evs hearing_init) = nodes hearing_init @ new"
    "sorted_wrt (\<lambda>a b. start_when a + buffer_duration a / cl_speechRate fast_session
                        \<le> start_when b) new"
    by blast
  then have "sorted_wrt (\<lambda>a b. start_when a + buffer_duration a / cl_speechRate fast_session
                        \<le> start_when b) (nodes (run_session fast_session ?evs hearing_init))"
    by (simp add: hearing_init_def)
  with ev cur show ?thesis by simp
qed

text \<open>
  Claim C5. Let a session have handled any events (so that any number of sources are
  scheduled), and let a message arrive that signals an interruption. After it the set
  of live sources is empty, the cursor is 0, and every source that was live is stopped.
  An audio chunk that arrives next, at the clock reading \<open>t\<close>, starts at
  \<open>max 0 t\<close>: at or after \<open>t\<close>, and at \<open>t\<close> itself for the readings \<open>t \<ge> 0\<close> of
  an audio clock, whatever the cursor was before the interruption. It is then the only
  live source.
\<close>

theorem interruption_clears_playback:
  assumes "interrupted sc"
  shows "sources (onmessage cl env (Some sc) (run_session cl evs hearing_init)) = {} \<and>
         card (sources (onmessage cl env (Some sc) (run_session cl evs hearing_init))) = 0 \<and>
         nextStartTime (onmessage cl env (Some sc) (run_session cl evs hearing_init)) = 0 \<and>
         (\<forall>i\<in>sources (run_session cl evs hearing_init).
            i < length (nodes (onmessage cl env (Some sc) (run_session cl evs hearing_init))) \<and>
            stopped (nodes (onmessage cl env (Some sc) (run_session cl evs hearing_init)) ! i)) \<and>
         (\<forall>env2 base64Audio t. base64Audio \<noteq> [] \<and> ctx_currentTime env2 = Some t \<longrightarrow>
            (let st1 = onmessage cl env (Some sc) (run_session cl evs hearing_init);
                 st2 = onmessage cl env2 (msg_audio base64Audio) st1
             in length (nodes st2) = Suc (length (nodes st1)) \<and>
                start_when (last (nodes st2)) = max 0 t \<and>
                t \<le> start_when (last (nodes st2)) \<and>
                (0 \<le> t \<longrightarrow> start_when (last (nodes st2)) = t) \<and>
                sources st2 = {length (nodes st1)}))"
proof -
  let ?st = "run_session cl evs hearing_init"
  let ?st1 = "onmessage cl env (Some sc) ?st"
  have live: "sources ?st \<subseteq> {..<length (nodes ?st)}"
    by (rule run_session_live) (simp add: hearing_init_def)
  from onmessage_interrupted [OF live assms, of cl env]
  have a: "sources ?st1 = {}" and b: "nextStartTime ?st1 = 0"
    and c: "length (nodes ?st) \<le> length (nodes ?st1)"
    and d: "\<forall>i\<in>sources ?st. stopped (nodes ?st1 ! i)"
    by blast+
  have d': "\<forall>i\<in>sources ?st. i < length (nodes ?st1) \<and> stopped (nodes ?st1 ! i)"
    using live c d by fastforce
  have e: "\<forall>env2 base64Audio t. base64Audio \<noteq> [] \<and> ctx_currentTime env2 = Some t \<longrightarrow>
            (let st2 = onmessage cl env2 (msg_audio base64Audio) ?st1
             in length (nodes st2) = Suc (length (nodes ?st1)) \<and>
                start_when (last (nodes st2)) = max 0 t \<and>
                t \<le> start_when (last (nodes st2)) \<and>
                (0 \<le> t \<longrightarrow> start_when (last (nodes st2)) = t) \<and>
                sources st2 = {length (nodes ?st1)})"
  proof (intro allI impI)
    fix env2 :: msg_env and base64Audio :: string and t :: real
    assume h: "base64Audio \<noteq> [] \<and> ctx_currentTime env2 = Some t"
    from chunk_after_reset [OF b, of base64Audio env2 t cl] h a
    show "let st2 = onmessage cl env2 (msg_audio base64Audio) ?st1
          in length (nodes st2) = Suc (length (nodes ?st1)) \<and>
             start_when (last (nodes st2)) = max 0 t \<and>
             t \<le> start_when (last (nodes st2)) \<and>
             (0 \<le> t \<longrightarrow> start_when (last (nodes st2)) = t) \<and>
             sources st2 = {length (nodes ?st1)}"
      by (simp add: Let_def)
  qed
  from a b d' e show ?thesis
    unfolding Let_def by simp
qed

theorem interruption_clears_playback_witness:
  "nextStartTime (run_session fast_session [chunk_at 0 10, chunk_at 1 10] hearing_init) = 10 \<and>
   sources (run_session fast_session [chunk_at 0 10, chunk_at 1 10] hearing_init) = {0, 1} \<and>
   sources (onmessage fast_session (env_at 2 0) msg_interrupted
      (run_session fast_session [chunk_at 0 10, chunk_at 1 10] hearing_init)) = {} \<and>
   nextStartTime (onmessage fast_session (env_at 2 0) msg_interrupted
      (run_session fast_session [chunk_at 0 10, chunk_at 1 10] hearing_init)) = 0 \<and>
   stopped (nodes (onmessage fast_session (env_at 2 0) msg_interrupted
      (run_session fast_session [chunk_at 0 10, chunk_at 1 10] hearing_init)) ! 0) \<and>
   stopped (nodes (onmessage fast_session (env_at 2 0) msg_interrupted
      (run_session fast_session [chunk_at 0 10, chunk_at 1 10] hearing_init)) ! 1) \<and>
   start_when (last (nodes (onmessage fast_session (env_at 3 1) (msg_audio ''AAAA'')
      (onmessage fast_session (env_at 2 0) msg_interrupted
         (run_session fast_session [chunk_at 0 10, chunk_at 1 10] hearing_init))))) = 3"
proof -
  let ?st = "run_session fast_session [chunk_at 0 10, chunk_at 1 10] hearing_init"
  let ?sc = "no_content\<lparr>interrupted := True\<rparr>"
  have h: "interrupted ?sc" by simp
  have m: "msg_interrupted = Some ?sc" by (simp add: msg_interrupted_def)
  have cur: "nextStartTime ?st = 10"
    by (simp add: chunk_at_def env_at_def fast_session_def hearing_eval)
  have src: "sources ?st = {0, 1}"
    by (simp add: chunk_at_def env_at_def fast_session_def hearing_eval insert_commute)
  from interruption_clears_playback [OF h, of fast_session "env_at 2 0" "[chunk_at 0 10, chunk_at 1 10]"]
  have a: "sources (onmessage fast_session (env_at 2 0) (Some ?sc) ?st) = {}"
    and b: "nextStartTime (onmessage fast_session (env_at 2 0) (Some ?sc) ?st) = 0"
    and c: "\<forall>i\<in>sources ?st. stopped (nodes (onmessage fast_session (env_at 2 0) (Some ?sc) ?st) ! i)"
    and d: "\<forall>env2 base64Audio t. base64Audio \<noteq> [] \<and> ctx_currentTime env2 = Some t \<longrightarrow>
            (let st1 = onmessage fast_session (env_at 2 0) (Some ?sc) ?st;
                 st2 = onmessage fast_session env2 (msg_audio base64Audio) st1
             in length (nodes st2) = Suc (length (nodes st1)) \<and>
                start_when (last (nodes st2)) = max 0 t \<and>
                t \<le> start_when (last (nodes st2)) \<and>
                (0 \<le> t \<longrightarrow> start_when (last (nodes st2)) = t) \<and>
                sources st2 = {length (nodes st1)})"
    by blast+
  have c0: "stopped (nodes (onmessage fast_session (env_at 2 0) (Some ?sc) ?st) ! 0)"
    using c unfolding src by blast
  have c1: "stopped (nodes (onmessage fast_session (env_at 2 0) (Some ?sc) ?st) ! 1)"
    using c unfolding src by blast
  have ne: "''AAAA'' \<noteq> [] \<and> ctx_currentTime (env_at 3 1) = Some 3"
    by (simp add: env_at_def)
  from d [rule_format, OF ne]
  have e: "start_when (last (nodes (onmessage fast_session (env_at 3 1) (msg_audio ''AAAA'')
                (onmessage fast_session (env_at 2 0) (Some ?sc) ?st)))) = 3"
    unfolding Let_def by simp
  from cur src a b c0 c1 e show ?thesis
    unfolding m by blast
qed

text \<open>
  Claim C6, on the code. The text of the two entries built at the end of a turn is read
  from \<open>currentInput\<close> and \<open>currentOutput\<close> as the handler's closure has them, which is
  as they were when \<open>startSession\<close> ran, and not from the buffers that the fragments
  have been appended to. In a session started on a newly mounted component, the
  fragments "He" and "llo" of the captured side and the empty fragment of the produced
  side make the captured buffer "Hello"; the end of the turn then appends nothing to the
  transcript, and clears both buffers.
\<close>

theorem turnComplete_reads_buffers_of_session_start:
  "transcript (onmessage cl env msg_turnComplete st) =
     filter (\<lambda>t. trim (text t) \<noteq> [])
       (transcript st @
        [\<lparr>text = cl_currentInput cl, timestamp = date_now1 env, speaker = User\<rparr>,
         \<lparr>text = cl_currentOutput cl, timestamp = date_now2 env, speaker = Model\<rparr>]) \<and>
   currentInput (onmessage cl env msg_turnComplete st) = [] \<and>
   currentOutput (onmessage cl env msg_turnComplete st) = [] \<and>
   startSession_closure hearing_init rate =
     \<lparr>cl_currentInput = [], cl_currentOutput = [], cl_speechRate = rate\<rparr> \<and>
   currentInput (run_session (startSession_closure hearing_init rate)
       [Message env1 (msg_input ''He''), Message env2 (msg_input ''llo''),
        Message env3 (msg_output [])] hearing_init) = ''Hello'' \<and>
   transcript (run_session (startSession_closure hearing_init rate)
       [Message env1 (msg_input ''He''), Message env2 (msg_input ''llo''),
        Message env3 (msg_output []), Message env4 msg_turnComplete] hearing_init) = []"
proof -
  let ?cl = "startSession_closure hearing_init rate"
  let ?fragments = "[Message env1 (msg_input ''He''), Message env2 (msg_input ''llo''),
                     Message env3 (msg_output [])]"
  have flush: "transcript (onmessage cl env msg_turnComplete st) =
     filter (\<lambda>t. trim (text t) \<noteq> [])
       (transcript st @
        [\<lparr>text = cl_currentInput cl, timestamp = date_now1 env, speaker = User\<rparr>,
         \<lparr>text = cl_currentOutput cl, timestamp = date_now2 env, speaker = Model\<rparr>])"
    by (rule turnComplete_transcript)
  have cleared: "currentInput (onmessage cl env msg_turnComplete st) = [] \<and>
                 currentOutput (onmessage cl env msg_turnComplete st) = []"
    by (simp add: hearing_eval)
  have captured: "?cl = \<lparr>cl_currentInput = [], cl_currentOutput = [], cl_speechRate = rate\<rparr>"
    by (simp add: startSession_closure_def hearing_init_def)
  have buffers: "currentInput (run_session ?cl ?fragments hearing_init) = ''Hello'' \<and>
                 transcript (run_session ?cl ?fragments hearing_init) = []"
    by (simp add: hearing_eval)
  have "run_session ?cl (?fragments @ [Message env4 msg_turnComplete]) hearing_init =
          onmessage ?cl env4 msg_turnComplete (run_session ?cl ?fragments hearing_init)"
    unfolding run_session_append by simp
  then have "transcript (run_session ?cl (?fragments @ [Message env4 msg_turnComplete])
               hearing_init) = []"
    using turnComplete_transcript [of ?cl env4 "run_session ?cl ?fragments hearing_init"] buffers
    unfolding captured by (simp add: trim_def)
  with flush cleared captured buffers show ?thesis by simp
qed

end
